(* ===== verification/Prelude.thy ===== *)
theory Prelude
  imports Main "HOL-Library.Word"
begin

text \<open>
  Shared vocabulary of the firmware model: the C integer types, the Zephyr error numbers, the
  observable effects (structured \<open>LOG_EVT\<close> lines, sleeps, thread starts, scheduled work, reboots), the
  little-endian memory image of a \<open>uint32_t\<close>, C strings, and the generic facts on words, lists
  and byte vectors that the component theories use.
\<close>

unbundle bit_operations_syntax

section \<open>C types\<close>

type_synonym u8 = "8 word"
type_synonym u32 = "32 word"
type_synonym u64 = "64 word"
type_synonym i32 = "32 word"
type_synonym i64 = "64 word"

text \<open>
  A C \<open>int\<close> that only carries a return code is an \<open>int\<close>: the code tests its sign and compares it
  with the error numbers below and with sizes, and never computes with it.
\<close>

type_synonym rc = int

abbreviation (input) ENOENT :: rc where "ENOENT \<equiv> 2"
abbreviation (input) EIO :: rc where "EIO \<equiv> 5"
abbreviation (input) EAGAIN :: rc where "EAGAIN \<equiv> 11"
abbreviation (input) EACCES :: rc where "EACCES \<equiv> 13"
abbreviation (input) EBUSY :: rc where "EBUSY \<equiv> 16"
abbreviation (input) ENODEV :: rc where "ENODEV \<equiv> 19"
abbreviation (input) EINVAL :: rc where "EINVAL \<equiv> 22"
abbreviation (input) ENOTTY :: rc where "ENOTTY \<equiv> 25"
abbreviation (input) ENOSPC :: rc where "ENOSPC \<equiv> 28"
abbreviation (input) ENODATA :: rc where "ENODATA \<equiv> 61"
abbreviation (input) ENOSYS :: rc where "ENOSYS \<equiv> 88"
abbreviation (input) ENOTSUP :: rc where "ENOTSUP \<equiv> 134"
abbreviation (input) EOVERFLOW :: rc where "EOVERFLOW \<equiv> 139"

section \<open>Observable effects\<close>

text \<open>
  \<open>LOG_EVT(level, tag, status, fmt, ...)\<close> and \<open>LOG_EVT_SIMPLE\<close> of \<open>src/log_utils.h\<close> write the
  line \<open>EVT,tag,status,args\<close>. These lines are the logging contract that the documentation
  describes, so they are kept as values; free-text \<open>LOG_INF\<close>/\<open>LOG_WRN\<close>/\<open>LOG_ERR\<close>/\<open>LOG_DBG\<close>
  messages are not.
\<close>

datatype log_level = L_ERR | L_WRN | L_INF

datatype log_arg = LNum int | LStr string

datatype reboot_type = SYS_REBOOT_WARM | SYS_REBOOT_COLD

datatype effect =
    Evt log_level string string "log_arg list"
  | Sleep nat
  | Thread_Start string
  | Wakeup string
  | Work_Schedule nat
  | Reboot reboot_type

definition LOG_EVT_SIMPLE :: "log_level \<Rightarrow> string \<Rightarrow> string \<Rightarrow> effect" where
  "LOG_EVT_SIMPLE level tag status = Evt level tag status []"

definition LOG_EVT :: "log_level \<Rightarrow> string \<Rightarrow> string \<Rightarrow> log_arg list \<Rightarrow> effect" where
  "LOG_EVT level tag status args = Evt level tag status args"

text \<open>The unsigned and the hexadecimal argument of a log line are both the value of the word.\<close>

abbreviation (input) LU :: "'a::len word \<Rightarrow> log_arg" where
  "LU w \<equiv> LNum (uint w)"

text \<open>
  The state every component shares: the hardware and kernel state behind the Zephyr calls, whose
  type \<open>'h\<close> is a parameter, and the trace of effects, oldest first. Each component extends this
  record with its own file-scope variables.
\<close>

record 'h mcu =
  hw :: 'h
  trace :: "effect list"

definition emit :: "effect \<Rightarrow> ('h, 'z) mcu_scheme \<Rightarrow> ('h, 'z) mcu_scheme" where
  "emit e s = s\<lparr>trace := trace s @ [e]\<rparr>"

lemma emit_simps [simp]:
  "hw (emit e s) = hw s" "trace (emit e s) = trace s @ [e]" "mcu.more (emit e s) = mcu.more s"
  by (simp_all add: emit_def)

section \<open>C strings\<close>

text \<open>
  A C string argument is the list of its characters before the terminating NUL; reading the
  terminator is the empty list. \<open>isspace\<close> is the one of the C locale.
\<close>

definition c_isspace :: "char \<Rightarrow> bool" where
  "c_isspace c \<longleftrightarrow> (let n = (of_char c :: nat) in n = 32 \<or> (9 \<le> n \<and> n \<le> 13))"

definition c_prefix :: "string \<Rightarrow> string \<Rightarrow> bool" where
  \<comment> \<open>\<open>strncmp(s, p, strlen(p)) == 0\<close>\<close>
  "c_prefix p s \<longleftrightarrow> take (length p) s = p"

lemma c_prefix_append [simp]: "c_prefix p (p @ s)"
  by (simp add: c_prefix_def)

section \<open>Byte vectors\<close>

definition le32 :: "u32 \<Rightarrow> u8 list" where
  \<comment> \<open>the four bytes of a \<open>uint32_t\<close> in memory on the little-endian target\<close>
  "le32 w = [ucast w, ucast (drop_bit 8 w), ucast (drop_bit 16 w), ucast (drop_bit 24 w)]"

definition un_le32 :: "u8 list \<Rightarrow> u32" where
  "un_le32 bs = ucast (bs ! 0) OR push_bit 8 (ucast (bs ! 1))
     OR push_bit 16 (ucast (bs ! 2)) OR push_bit 24 (ucast (bs ! 3))"

lemma length_le32 [simp]: "length (le32 w) = 4"
  by (simp add: le32_def)

lemma un_le32_le32 [simp]: "un_le32 (le32 w) = w"
proof (rule bit_word_eqI)
  fix i
  assume i: "i < LENGTH(32)"
  consider "i < 8" | "8 \<le> i \<and> i < 16" | "16 \<le> i \<and> i < 24" | "24 \<le> i"
    by linarith
  then show "bit (un_le32 (le32 w)) i = bit w i"
    using i by cases (auto simp: un_le32_def le32_def bit_simps)
qed

lemma le32_inject [simp]: "le32 v = le32 w \<longleftrightarrow> v = w"
  by (metis un_le32_le32)

lemma le32_un_le32:
  assumes "4 \<le> length bs"
  shows "le32 (un_le32 bs) = take 4 bs"
proof -
  obtain a b c d rest where bs: "bs = a # b # c # d # rest"
    using assms by (auto simp: Suc_le_length_iff numeral_eq_Suc)
  show ?thesis
    unfolding bs le32_def un_le32_def
    by (simp, intro conjI; rule bit_word_eqI; auto simp: bit_simps dest: bit_imp_le_length)
qed

definition xor_bytes :: "u8 list \<Rightarrow> u8 list \<Rightarrow> u8 list" where
  "xor_bytes xs ys = map2 (XOR) xs ys"

lemma length_xor_bytes [simp]: "length (xor_bytes xs ys) = min (length xs) (length ys)"
  by (simp add: xor_bytes_def)

lemma xor_bytes_nth [simp]:
  "i < length xs \<Longrightarrow> i < length ys \<Longrightarrow> xor_bytes xs ys ! i = xs ! i XOR ys ! i"
  by (simp add: xor_bytes_def)

lemma xor_bytes_cancel: "length xs \<le> length ys \<Longrightarrow> xor_bytes (xor_bytes xs ys) ys = xs"
  by (rule nth_equalityI) (auto simp: xor_bytes_def xor.assoc)

lemma xor_bytes_right_inj:
  assumes "length xs = length ks" "length ys = length ks" "xor_bytes xs ks = xor_bytes ys ks"
  shows "xs = ys"
proof -
  have "xs = xor_bytes (xor_bytes xs ks) ks" "ys = xor_bytes (xor_bytes ys ks) ks"
    using assms(1,2) by (simp_all add: xor_bytes_cancel)
  then show ?thesis
    using assms(3) by metis
qed

section \<open>Word facts\<close>

lemma xor_right_eq [simp]: "(a :: 'a::len word) XOR c = b XOR c \<longleftrightarrow> a = b"
  by (metis xor.assoc xor.right_neutral xor_self_eq)

lemma word8_induct_nat:
  assumes "\<And>n. n < 256 \<Longrightarrow> P (word_of_nat n :: u8)"
  shows "P w"
proof -
  have "unat w < 256"
    using unsigned_less[of w] by simp
  then show ?thesis
    using assms[of "unat w"] by simp
qed

lemma unat_u8_less [simp]: "unat (w :: u8) < 256"
  using unsigned_less[of w] by simp

lemma u32_less: "unat (w :: u32) < 4294967296"
  using unsigned_less[of w] by simp

end
