(* ===== verification/Zephyr.thy ===== *)
theory Zephyr
  imports Prelude
begin

text \<open>
  The Zephyr services that the firmware calls and that are not part of the repository: kernel
  clock, flash map and NVS, hardware info, watchdog driver and STM32 IWDG registers, GPIO, sensor,
  UART, \<open>k_event\<close> and CRC. They are one record of functions over an abstract hardware state
  \<open>'h\<close>, and every definition that calls one of them takes the record as its argument. What the
  firmware relies on is stated as named contracts, each a paraphrase of the documented behaviour.
  \<open>sim_board\<close> at the end is one board on which the contracts hold; the witnesses run on it.
\<close>

section \<open>The interface\<close>

datatype device = Flash_Dev nat | Wdt_Dev | Console_Dev | Hts221_Dev

record flash_area =
  fa_dev :: device
  fa_off :: nat
  fa_size :: nat

record nvs_fs =
  flash_device :: device
  fs_offset :: nat
  sector_size :: nat
  sector_count :: nat

datatype sensor_channel = SENSOR_CHAN_AMBIENT_TEMP | SENSOR_CHAN_HUMIDITY

datatype k_timeout = K_FOREVER | K_MSEC nat

record 'h zephyr =
  k_uptime_get :: "'h \<Rightarrow> int \<times> 'h"
  k_msleep :: "nat \<Rightarrow> 'h \<Rightarrow> 'h"
  k_cycle_get_32 :: "'h \<Rightarrow> u32"
  device_is_ready :: "device \<Rightarrow> 'h \<Rightarrow> bool"
  flash_area_open :: "'h \<Rightarrow> rc \<times> flash_area \<times> 'h"
  flash_area_close :: "flash_area \<Rightarrow> 'h \<Rightarrow> 'h"
  flash_get_page_size :: "device \<Rightarrow> nat \<Rightarrow> 'h \<Rightarrow> rc \<times> nat"
    \<comment> \<open>\<open>flash_get_page_info_by_offs\<close>: the return code and \<open>page_info.size\<close>\<close>
  nvs_mount :: "nvs_fs \<Rightarrow> 'h \<Rightarrow> rc \<times> 'h"
  nvs_read :: "nvs_fs \<Rightarrow> nat \<Rightarrow> nat \<Rightarrow> 'h \<Rightarrow> rc \<times> u8 list"
    \<comment> \<open>record id and buffer length; the return code and the bytes put into the buffer\<close>
  nvs_write :: "nvs_fs \<Rightarrow> nat \<Rightarrow> u8 list \<Rightarrow> 'h \<Rightarrow> rc \<times> 'h"
  nvs_clear :: "nvs_fs \<Rightarrow> 'h \<Rightarrow> rc \<times> 'h"
  hwinfo_get_device_id :: "nat \<Rightarrow> 'h \<Rightarrow> rc \<times> u8 list"
  hwinfo_get_reset_cause :: "'h \<Rightarrow> rc \<times> u32"
  hwinfo_clear_reset_cause :: "'h \<Rightarrow> 'h"
  crc32_ieee_update :: "u32 \<Rightarrow> u8 list \<Rightarrow> u32"
  wdt_install_timeout :: "u32 \<Rightarrow> 'h \<Rightarrow> rc \<times> 'h"
  wdt_setup :: "'h \<Rightarrow> rc \<times> 'h"
  wdt_feed :: "int \<Rightarrow> 'h \<Rightarrow> rc \<times> 'h"
  LL_IWDG_EnableWriteAccess :: "'h \<Rightarrow> 'h"
  LL_IWDG_SetPrescaler :: "u32 \<Rightarrow> 'h \<Rightarrow> 'h"
  LL_IWDG_SetReloadCounter :: "u32 \<Rightarrow> 'h \<Rightarrow> 'h"
  LL_IWDG_IsReady :: "'h \<Rightarrow> u32 \<times> 'h"
  LL_IWDG_ReloadCounter :: "'h \<Rightarrow> 'h"
  gpio_pin_configure_output_inactive :: "'h \<Rightarrow> rc \<times> 'h"
  gpio_pin_set :: "nat \<Rightarrow> 'h \<Rightarrow> rc \<times> 'h"
  sensor_sample_fetch :: "'h \<Rightarrow> rc \<times> 'h"
  sensor_channel_get_milli :: "sensor_channel \<Rightarrow> 'h \<Rightarrow> rc \<times> i64"
    \<comment> \<open>\<open>sensor_channel_get\<close> followed by \<open>sensor_value_to_milli\<close>\<close>
  uart_poll_in :: "'h \<Rightarrow> rc \<times> u8 \<times> 'h"
  k_event_init :: "'h \<Rightarrow> 'h"
  k_event_post :: "u32 \<Rightarrow> 'h \<Rightarrow> 'h"
  k_event_wait :: "u32 \<Rightarrow> bool \<Rightarrow> k_timeout \<Rightarrow> 'h \<Rightarrow> u32 \<times> 'h"
    \<comment> \<open>event mask, \<open>reset\<close>, timeout; the matching events, 0 when the wait timed out\<close>

text \<open>\<open>k_uptime_get_32\<close> is the low half of \<open>k_uptime_get\<close>.\<close>

definition k_uptime_get_32 :: "'h zephyr \<Rightarrow> 'h \<Rightarrow> u32 \<times> 'h" where
  "k_uptime_get_32 z h = (case k_uptime_get z h of (t, h') \<Rightarrow> (word_of_int t, h'))"

text \<open>\<open>crc32_ieee(data, len)\<close> is \<open>crc32_ieee_update(0, data, len)\<close>.\<close>

definition crc32_ieee :: "'h zephyr \<Rightarrow> u8 list \<Rightarrow> u32" where
  "crc32_ieee z bs = crc32_ieee_update z 0 bs"

text \<open>A call of \<open>k_msleep\<close> by the firmware: time passes, and the sleep is visible in the trace.\<close>

definition msleep :: "'h zephyr \<Rightarrow> nat \<Rightarrow> ('h, 'z) mcu_scheme \<Rightarrow> ('h, 'z) mcu_scheme" where
  "msleep z n s = emit (Sleep n) (s\<lparr>hw := k_msleep z n (hw s)\<rparr>)"

lemma msleep_simps [simp]:
  "hw (msleep z n s) = k_msleep z n (hw s)" "trace (msleep z n s) = trace s @ [Sleep n]"
  "mcu.more (msleep z n s) = mcu.more s"
  by (simp_all add: msleep_def)

section \<open>The documented behaviour of NVS\<close>

text \<open>
  \<open>view h id\<close> is the record stored under \<open>id\<close>. \<open>nvs_read\<close> returns \<open>-ENOENT\<close> for an absent record
  and else the size of the stored record, which is larger than the buffer when the buffer was too
  small; \<open>nvs_write\<close> returns a non-negative number on success (the bytes written, or 0 when the
  same data was already stored) and then the record is stored. The calls that open and mount the
  partition and the kernel clock leave the stored records alone.
\<close>

type_synonym 'h nvs_view = "'h \<Rightarrow> nat \<Rightarrow> u8 list option"

definition nvs_read_ok :: "'h zephyr \<Rightarrow> 'h nvs_view \<Rightarrow> bool" where
  "nvs_read_ok z view \<longleftrightarrow> (\<forall>fs i n h. nvs_read z fs i n h =
     (case view h i of None \<Rightarrow> (- ENOENT, []) | Some d \<Rightarrow> (int (length d), take n d)))"

definition nvs_write_ok :: "'h zephyr \<Rightarrow> 'h nvs_view \<Rightarrow> bool" where
  "nvs_write_ok z view \<longleftrightarrow> (\<forall>fs i d h. 0 \<le> fst (nvs_write z fs i d h) \<longrightarrow>
     view (snd (nvs_write z fs i d h)) = (view h)(i := Some d))"

definition storage_quiet :: "'h zephyr \<Rightarrow> 'h nvs_view \<Rightarrow> bool" where
  "storage_quiet z view \<longleftrightarrow>
     (\<forall>h. view (snd (k_uptime_get z h)) = view h) \<and>
     (\<forall>n h. view (k_msleep z n h) = view h) \<and>
     (\<forall>h. view (snd (snd (flash_area_open z h))) = view h) \<and>
     (\<forall>fa h. view (flash_area_close z fa h) = view h) \<and>
     (\<forall>fs h. view (snd (nvs_mount z fs h)) = view h) \<and>
     (\<forall>h. view (hwinfo_clear_reset_cause z h) = view h)"

definition nvs_contract :: "'h zephyr \<Rightarrow> 'h nvs_view \<Rightarrow> bool" where
  "nvs_contract z view \<longleftrightarrow> nvs_read_ok z view \<and> nvs_write_ok z view \<and> storage_quiet z view"

named_theorems nvs_facts \<open>what the NVS contract says, one equation per call\<close>

lemma nvs_contract_read:
  "nvs_contract z view \<Longrightarrow> nvs_read z fs i n h =
     (case view h i of None \<Rightarrow> (- ENOENT, []) | Some d \<Rightarrow> (int (length d), take n d))"
  by (simp add: nvs_contract_def nvs_read_ok_def)

lemma nvs_contract_write [nvs_facts]:
  "nvs_contract z view \<Longrightarrow> 0 \<le> fst (nvs_write z fs i d h) \<Longrightarrow>
     view (snd (nvs_write z fs i d h)) = (view h)(i := Some d)"
  by (simp add: nvs_contract_def nvs_write_ok_def)

lemma nvs_contract_quiet [nvs_facts]:
  assumes "nvs_contract z view"
  shows "view (snd (k_uptime_get z h)) = view h"
    and "view (k_msleep z n h) = view h"
    and "view (snd (snd (flash_area_open z h))) = view h"
    and "view (flash_area_close z fa h) = view h"
    and "view (snd (nvs_mount z fs h)) = view h"
    and "view (hwinfo_clear_reset_cause z h) = view h"
  using assms by (simp_all add: nvs_contract_def storage_quiet_def)

section \<open>The documented behaviour of the clock and of events\<close>

text \<open>
  The clock does not run backwards, and a write always fits as long as the partition has room:
  \<open>nvs_writable\<close> states that no write fails (used where a property is about a working flash).
\<close>

definition nvs_writable :: "'h zephyr \<Rightarrow> bool" where
  "nvs_writable z \<longleftrightarrow> (\<forall>fs i d h. 0 \<le> fst (nvs_write z fs i d h))"

text \<open>
  A flash that comes up: the partition opens, its device is ready, the page layout is known and
  the file system mounts, all at the first attempt.
\<close>

definition flash_healthy :: "'h zephyr \<Rightarrow> bool" where
  "flash_healthy z \<longleftrightarrow>
     (\<forall>h. fst (flash_area_open z h) = 0) \<and>
     (\<forall>d h. device_is_ready z d h) \<and>
     (\<forall>d off h. fst (flash_get_page_size z d off h) = 0) \<and>
     (\<forall>fs h. fst (nvs_mount z fs h) = 0)"

text \<open>
  \<open>k_event_wait\<close> with \<open>reset = true\<close> clears the events the object tracks before it waits, so what
  was posted before the call cannot be seen by it: \<open>ev_clear\<close> is that clearing.
\<close>

definition k_event_reset_ok :: "'h zephyr \<Rightarrow> ('h \<Rightarrow> 'h) \<Rightarrow> bool" where
  "k_event_reset_ok z ev_clear \<longleftrightarrow>
     (\<forall>m t h. k_event_wait z m True t h = k_event_wait z m False t (ev_clear h)) \<and>
     (\<forall>m h. ev_clear (k_event_post z m h) = ev_clear h)"

section \<open>A simulated board\<close>

text \<open>
  The board of the witnesses: a map as flash, a clock that advances one millisecond per reading,
  an event word, a watchdog that accepts everything, a sensor with fixed readings and a UART fed
  from a list. \<open>crc\<close> is only a stand-in value for the CRC library.
\<close>

record sim =
  sim_flash :: "nat \<Rightarrow> u8 list option"
  sim_clock :: int
  sim_events :: u32
  sim_fed :: nat
  sim_prescaler :: u32
  sim_reload :: u32
  sim_input :: "u8 list"
  sim_cause :: u32
  sim_sensor_rc :: rc

definition sim_boot :: sim where
  "sim_boot = \<lparr>sim_flash = Map.empty, sim_clock = 0, sim_events = 0, sim_fed = 0,
     sim_prescaler = 0, sim_reload = 0, sim_input = [], sim_cause = 0, sim_sensor_rc = 0\<rparr>"

definition sim_board :: "sim zephyr" where
  "sim_board = \<lparr>
     k_uptime_get = (\<lambda>h. (sim_clock h, h\<lparr>sim_clock := sim_clock h + 1\<rparr>)),
     k_msleep = (\<lambda>n h. h\<lparr>sim_clock := sim_clock h + int n\<rparr>),
     k_cycle_get_32 = (\<lambda>h. 12345),
     device_is_ready = (\<lambda>d h. True),
     flash_area_open = (\<lambda>h. (0, \<lparr>fa_dev = Flash_Dev 0, fa_off = 57344, fa_size = 8192\<rparr>, h)),
     flash_area_close = (\<lambda>fa h. h),
     flash_get_page_size = (\<lambda>d off h. (0, 128)),
     nvs_mount = (\<lambda>fs h. (0, h)),
     nvs_read = (\<lambda>fs i n h. case sim_flash h i of None \<Rightarrow> (- ENOENT, [])
        | Some d \<Rightarrow> (int (length d), take n d)),
     nvs_write = (\<lambda>fs i d h. (int (length d), h\<lparr>sim_flash := (sim_flash h)(i := Some d)\<rparr>)),
     nvs_clear = (\<lambda>fs h. (0, h\<lparr>sim_flash := Map.empty\<rparr>)),
     hwinfo_get_device_id = (\<lambda>n h. (12, take n [1, 2, 3, 4, 5, 6, 7, 8, 9, 10, 11, 12])),
     hwinfo_get_reset_cause = (\<lambda>h. (0, sim_cause h)),
     hwinfo_clear_reset_cause = (\<lambda>h. h\<lparr>sim_cause := 0\<rparr>),
     crc32_ieee_update = (\<lambda>crc bs. crc + of_nat (length bs)),
     wdt_install_timeout = (\<lambda>t h. (0, h)),
     wdt_setup = (\<lambda>h. (0, h)),
     wdt_feed = (\<lambda>ch h. (0, h\<lparr>sim_fed := sim_fed h + 1\<rparr>)),
     LL_IWDG_EnableWriteAccess = (\<lambda>h. h),
     LL_IWDG_SetPrescaler = (\<lambda>p h. h\<lparr>sim_prescaler := p\<rparr>),
     LL_IWDG_SetReloadCounter = (\<lambda>r h. h\<lparr>sim_reload := r\<rparr>),
     LL_IWDG_IsReady = (\<lambda>h. (1, h)),
     LL_IWDG_ReloadCounter = (\<lambda>h. h),
     gpio_pin_configure_output_inactive = (\<lambda>h. (0, h)),
     gpio_pin_set = (\<lambda>v h. (0, h)),
     sensor_sample_fetch = (\<lambda>h. (sim_sensor_rc h, h)),
     sensor_channel_get_milli = (\<lambda>c h. (0, case c of SENSOR_CHAN_AMBIENT_TEMP \<Rightarrow> 21500
        | SENSOR_CHAN_HUMIDITY \<Rightarrow> 40250)),
     uart_poll_in = (\<lambda>h. case sim_input h of [] \<Rightarrow> (- 1, 0, h)
        | c # cs \<Rightarrow> (0, c, h\<lparr>sim_input := cs\<rparr>)),
     k_event_init = (\<lambda>h. h\<lparr>sim_events := 0\<rparr>),
     k_event_post = (\<lambda>m h. h\<lparr>sim_events := sim_events h OR m\<rparr>),
     k_event_wait = (\<lambda>m reset t h. let h' = (if reset then h\<lparr>sim_events := 0\<rparr> else h)
        in (sim_events h' AND m, h'))\<rparr>"

lemma sim_nvs_contract: "nvs_contract sim_board sim_flash"
  by (auto simp: nvs_contract_def nvs_read_ok_def nvs_write_ok_def storage_quiet_def sim_board_def)

lemma sim_nvs_writable: "nvs_writable sim_board"
  by (simp add: nvs_writable_def sim_board_def)

lemma sim_flash_healthy: "flash_healthy sim_board"
  by (simp add: flash_healthy_def sim_board_def)

lemma sim_k_event_reset_ok: "k_event_reset_ok sim_board (\<lambda>h. h\<lparr>sim_events := 0\<rparr>)"
  by (simp add: k_event_reset_ok_def sim_board_def Let_def)

end
