(* ===== verification/App_Config.thy ===== *)
theory App_Config
  imports Prelude
begin

text \<open>
  The build configuration (\<open>Kconfig\<close>): every \<open>CONFIG_*\<close> value that the C code reads, as a record.
  Numbers keep the width of the C type they are converted to. \<open>kconfig_defaults\<close> holds the
  defaults of \<open>Kconfig\<close> (the AES backend), \<open>prj_conf\<close> the shipped production configuration, and
  \<open>prj_provision_conf\<close> the provisioning overlay on top of it.
\<close>

record app_config =
  APP_WATCHDOG_BOOT_TIMEOUT_MS :: u32
  APP_WATCHDOG_STEADY_TIMEOUT_MS :: u32
  APP_WATCHDOG_RETUNE_DELAY_MS :: u32
  APP_RESET_WATCHDOG_THRESHOLD :: u32
  APP_HEALTH_LED_STALE_MS :: u32
  APP_HEALTH_SYS_STALE_MS :: u32
  APP_ENABLE_UART_COMMANDS :: bool
  APP_PROVISION_BUILD :: bool
  APP_PROVISION_AUTO_PERSIST :: bool
  APP_PROVISION_CMD_BUFFER :: nat
  APP_SAFE_MODE_REBOOT_DELAY_MS :: u32
  APP_SENSOR_SAMPLE_INTERVAL_MS :: u32
  APP_SENSOR_SAFE_MODE_INTERVAL_MS :: u32
  APP_CRYPTO_BACKEND_CURVE25519 :: bool
  APP_USE_AES_ENCRYPTION :: bool
  APP_CURVE25519_STATIC_SECRET_HEX :: string
  APP_CURVE25519_STATIC_PEER_PUB_HEX :: string
  APP_AES_STATIC_KEY_HEX :: string
  APP_AES_STATIC_IV_HEX :: string
  HWINFO :: bool
  DT_ST_STM32_IWDG :: bool
  LSI_VALUE :: u32
  ZTEST :: bool
  STORAGE_PARTITION_ID :: nat
    \<comment> \<open>\<open>DT_FIXED_PARTITION_ID\<close> of the storage partition, from the devicetree\<close>

definition kconfig_defaults :: app_config where
  "kconfig_defaults = \<lparr>
     APP_WATCHDOG_BOOT_TIMEOUT_MS = 8000,
     APP_WATCHDOG_STEADY_TIMEOUT_MS = 2000,
     APP_WATCHDOG_RETUNE_DELAY_MS = 5000,
     APP_RESET_WATCHDOG_THRESHOLD = 3,
     APP_HEALTH_LED_STALE_MS = 1500,
     APP_HEALTH_SYS_STALE_MS = 1500,
     APP_ENABLE_UART_COMMANDS = True,
     APP_PROVISION_BUILD = False,
     APP_PROVISION_AUTO_PERSIST = False,
     APP_PROVISION_CMD_BUFFER = 512,
     APP_SAFE_MODE_REBOOT_DELAY_MS = 60000,
     APP_SENSOR_SAMPLE_INTERVAL_MS = 2000,
     APP_SENSOR_SAFE_MODE_INTERVAL_MS = 5000,
     APP_CRYPTO_BACKEND_CURVE25519 = False,
     APP_USE_AES_ENCRYPTION = True,
     APP_CURVE25519_STATIC_SECRET_HEX =
       ''77076D0A7318A57D3C16C17251B26645DF4C2F87EBC0992AB177FBA51DB92C2A'',
     APP_CURVE25519_STATIC_PEER_PUB_HEX =
       ''DE9EDB7D7B7DC1B4D35B61C2ECE435373F8343C85B78674DADFC7E146F882B4F'',
     APP_AES_STATIC_KEY_HEX =
       ''00112233445566778899AABBCCDDEEFF00112233445566778899AABBCCDDEEFF'',
     APP_AES_STATIC_IV_HEX = ''000102030405060708090A0B'',
     HWINFO = True,
     DT_ST_STM32_IWDG = True,
     LSI_VALUE = 37000,
     ZTEST = False,
     STORAGE_PARTITION_ID = 1\<rparr>"

definition prj_conf :: app_config where
  "prj_conf = kconfig_defaults\<lparr>
     APP_WATCHDOG_RETUNE_DELAY_MS := 500,
     APP_HEALTH_LED_STALE_MS := 6500,
     APP_HEALTH_SYS_STALE_MS := 6500,
     APP_ENABLE_UART_COMMANDS := False,
     APP_CRYPTO_BACKEND_CURVE25519 := True\<rparr>"

definition prj_provision_conf :: app_config where
  "prj_provision_conf = prj_conf\<lparr>
     APP_PROVISION_BUILD := True,
     APP_PROVISION_AUTO_PERSIST := True,
     APP_ENABLE_UART_COMMANDS := True,
     APP_PROVISION_CMD_BUFFER := 768,
     APP_CURVE25519_STATIC_SECRET_HEX :=
       ''f0ed94212d52773938064558aab7d53fcf56f1680399281f9996dc2b7cfe284f'',
     APP_CURVE25519_STATIC_PEER_PUB_HEX :=
       ''3dbced551515fba03d03007dd069a7331187bd5ec83db25d4c70c8412a783dd3''\<rparr>"

definition CURVE25519_KEY_SIZE :: nat where
  "CURVE25519_KEY_SIZE = 32"

end
