(* ===== verification/Safe_Memory.thy ===== *)
theory Safe_Memory
  imports Prelude
begin

text \<open>
  \<open>src/safe_memory.h\<close>: the bounds-checked copies. A failing \<open>__ASSERT_NO_MSG\<close> stops the firmware,
  which is the result \<open>None\<close>; a null pointer is \<open>None\<close> as an argument. A buffer is the list of its
  bytes, so \<open>dst_len\<close> is the length that the caller claims for it.
\<close>

definition safe_memcpy :: "u8 list option \<Rightarrow> nat \<Rightarrow> u8 list option \<Rightarrow> nat \<Rightarrow> u8 list option" where
  "safe_memcpy dst dst_len src copy_len =
     (case dst of None \<Rightarrow> None | Some d \<Rightarrow>
      (case src of None \<Rightarrow> None | Some s \<Rightarrow>
        if copy_len \<le> dst_len then Some (take copy_len s @ drop copy_len d) else None))"

definition safe_memset :: "u8 list option \<Rightarrow> nat \<Rightarrow> u8 \<Rightarrow> nat \<Rightarrow> u8 list option" where
  "safe_memset dst dst_len value set_len =
     (case dst of None \<Rightarrow> None | Some d \<Rightarrow>
        if set_len \<le> dst_len then Some (replicate set_len value @ drop set_len d) else None)"

text \<open>\<open>while ((len < max_len) && (str[len] != '\0')) len++\<close>, on the characters left to read.\<close>

fun safe_strlen_loop :: "string \<Rightarrow> nat \<Rightarrow> nat \<Rightarrow> nat" where
  "safe_strlen_loop [] len max_len = len"
| "safe_strlen_loop (c # cs) len max_len =
     (if len < max_len then safe_strlen_loop cs (Suc len) max_len else len)"

text \<open>
  The trailing assertion is checked only in builds with assertions; without them the bounded length
  is returned, which is what the callers see.
\<close>

definition safe_strlen :: "string \<Rightarrow> nat \<Rightarrow> nat" where
  "safe_strlen str max_len = safe_strlen_loop str 0 max_len"

lemma safe_strlen_loop_eq: "safe_strlen_loop cs len m = (if len < m then min (len + length cs) m else len)"
  by (induction cs len m rule: safe_strlen_loop.induct) auto

lemma safe_strlen_eq: "safe_strlen s m = min (length s) m"
  by (simp add: safe_strlen_def safe_strlen_loop_eq)

text \<open>
  The copies never touch a byte beyond the length the caller claims, and refuse when the claim is
  too small.
\<close>

lemma safe_memcpy_length:
  "safe_memcpy (Some d) n (Some s) k = Some r \<Longrightarrow> n = length d \<Longrightarrow> k \<le> length s \<Longrightarrow>
     length r = length d \<and> take k r = take k s \<and> drop k r = drop k d"
  by (auto simp: safe_memcpy_def min_def split: if_splits)

lemma safe_memset_length:
  "safe_memset (Some d) n v k = Some r \<Longrightarrow> n = length d \<Longrightarrow> length r = length d \<and> drop k r = drop k d"
  by (auto simp: safe_memset_def split: if_splits)

lemma safe_memcpy_full: "length s = n \<Longrightarrow> length d = n \<Longrightarrow> safe_memcpy (Some d) n (Some s) n = Some s"
  by (simp add: safe_memcpy_def)

end
