(* ===== verification/Hex_Codec.thy ===== *)
theory Hex_Codec
  imports Prelude
begin

text \<open>
  The hexadecimal coding that four components of the firmware carry a private copy of
  (\<open>hex_value\<close> of \<open>src/app_crypto.c\<close>, \<open>hex_nibble\<close> of \<open>src/persist_state.c\<close>, \<open>hex_value_cli\<close> of
  \<open>src/uart_commands.c\<close>, \<open>hex_digit_value\<close> of \<open>src/main.c\<close>). The decoding loop is the same
  statement for statement in all of them, so it is one function over the digit function; what a
  digit function must satisfy is the locale \<open>hex_digits\<close>, and each component interprets it with its
  own copy.
\<close>

section \<open>Encoder\<close>

definition hex_chars :: string where
  "hex_chars = ''0123456789ABCDEF''"

definition hex_chars_lower :: string where
  \<comment> \<open>the lower-case spelling, which the parsers accept too\<close>
  "hex_chars_lower = ''0123456789abcdef''"

text \<open>\<open>dst[2i] = hex_chars[(src[i] >> 4) & 0xF]; dst[2i+1] = hex_chars[src[i] & 0xF]\<close>\<close>

fun hex_encode :: "string \<Rightarrow> u8 list \<Rightarrow> string" where
  "hex_encode digits [] = []"
| "hex_encode digits (b # bs) =
     digits ! unat (drop_bit 4 b AND 15) # digits ! unat (b AND 15) # hex_encode digits bs"

section \<open>Decoder loop\<close>

text \<open>
  The bytes written to \<open>out\<close> before the loop ended, and whether it ran to its end: an invalid digit
  leaves the loop with \<open>-EINVAL\<close> after the earlier bytes have been stored.
\<close>

fun hex_decode_loop :: "(char \<Rightarrow> int) \<Rightarrow> string \<Rightarrow> u8 list \<times> bool" where
  "hex_decode_loop nib (h # l # cs) =
     (let hi = nib h; lo = nib l in
      if hi < 0 \<or> lo < 0 then ([], False)
      else let (bs, ok) = hex_decode_loop nib cs
           in (word_of_int (push_bit 4 hi OR lo) # bs, ok))"
| "hex_decode_loop nib _ = ([], True)"

definition hex_ok :: "(char \<Rightarrow> int) \<Rightarrow> string \<Rightarrow> bool" where
  "hex_ok nib s \<longleftrightarrow> snd (hex_decode_loop nib s)"

definition hex_bytes :: "(char \<Rightarrow> int) \<Rightarrow> string \<Rightarrow> u8 list" where
  "hex_bytes nib s = fst (hex_decode_loop nib s)"

lemma length_hex_encode [simp]: "length (hex_encode d bs) = 2 * length bs"
  by (induction bs) auto

lemma hex_decode_length_le: "length (fst (hex_decode_loop nib s)) \<le> length s div 2"
  by (induction nib s rule: hex_decode_loop.induct)
    (auto simp: Let_def split: prod.splits)

lemma hex_decode_length: "snd (hex_decode_loop nib s) \<Longrightarrow> length (fst (hex_decode_loop nib s)) = length s div 2"
  by (induction nib s rule: hex_decode_loop.induct)
    (auto simp: Let_def split: prod.splits if_splits)

lemma hex_decode_iff:
  "snd (hex_decode_loop nib s) \<longleftrightarrow> (\<forall>c \<in> set (take (2 * (length s div 2)) s). 0 \<le> nib c)"
  by (induction nib s rule: hex_decode_loop.induct)
    (auto simp: Let_def split: prod.splits)

section \<open>What a digit function promises\<close>

locale hex_digits =
  fixes nib :: "char \<Rightarrow> int"
  assumes nib_upper: "n < 16 \<Longrightarrow> nib (hex_chars ! n) = int n"
    and nib_lower: "n < 16 \<Longrightarrow> nib (hex_chars_lower ! n) = int n"
    and nib_less: "nib c < 16"
    and nib_only: "0 \<le> nib c \<Longrightarrow> c \<in> set hex_chars \<union> set hex_chars_lower"
begin

lemma nibbles_of_byte:
  fixes b :: u8
  shows "word_of_int (push_bit 4 (uint (drop_bit 4 b AND 15)) OR uint (b AND 15)) = b"
proof -
  have "push_bit 4 (drop_bit 4 b AND mask 4) OR (b AND mask 4) = b"
    by (rule bit_word_eqI)
      (auto simp: bit_and_iff bit_or_iff bit_push_bit_iff bit_drop_bit_eq bit_mask_iff)
  then have "push_bit 4 (drop_bit 4 b AND 15) OR (b AND 15) = b"
    by (simp add: mask_eq_exp_minus_1)
  then show ?thesis
    by (simp only: of_int_or_eq push_bit_of_int [symmetric] word_of_int_uint)
qed

lemma nibble_less:
  fixes b :: u8
  shows "unat (b AND 15) < 16"
proof -
  have "b AND 15 \<le> 15"
    by (rule word_and_le1)
  then show ?thesis
    by (simp add: word_le_nat_alt)
qed

lemma decode_encode_digits:
  assumes "\<And>n. n < 16 \<Longrightarrow> nib (d ! n) = int n"
  shows "hex_decode_loop nib (hex_encode d bs) = (bs, True)"
  by (induction bs) (simp_all add: assms nibble_less nibbles_of_byte [simplified] Let_def)

lemma decode_encode: "hex_decode_loop nib (hex_encode hex_chars bs) = (bs, True)"
  by (rule decode_encode_digits) (rule nib_upper)

lemma decode_encode_lower: "hex_decode_loop nib (hex_encode hex_chars_lower bs) = (bs, True)"
  by (rule decode_encode_digits) (rule nib_lower)

lemma reject_non_digit:
  assumes "c \<in> set (take (2 * (length s div 2)) s)" "c \<notin> set hex_chars" "c \<notin> set hex_chars_lower"
  shows "\<not> hex_ok nib s"
  using assms nib_only unfolding hex_ok_def hex_decode_iff by blast

end

text \<open>
  The shape of all four digit functions: three ranges of character codes, tested in this order, which
  is enough for the four promises.
\<close>

lemma hex_digits_by_ranges:
  assumes nib: "\<And>c. nib c = (let n = (of_char c :: int) in
      if 48 \<le> n \<and> n \<le> 57 then n - 48
      else if 97 \<le> n \<and> n \<le> 102 then 10 + (n - 97)
      else if 65 \<le> n \<and> n \<le> 70 then 10 + (n - 65) else -1)"
  shows "hex_digits nib"
proof
  fix n :: nat
  assume n: "n < 16"
  then show "nib (hex_chars ! n) = int n"
    by (auto simp: nib hex_chars_def numeral_eq_Suc less_Suc_eq)
  from n show "nib (hex_chars_lower ! n) = int n"
    by (auto simp: nib hex_chars_lower_def numeral_eq_Suc less_Suc_eq)
next
  fix c
  show "nib c < 16"
    by (auto simp: nib Let_def)
next
  fix c
  assume "0 \<le> nib c"
  then have "(of_char c :: int) \<in> {48..57} \<union> {97..102} \<union> {65..70}"
    by (auto simp: nib Let_def split: if_splits)
  then have "48 \<le> (of_char c :: nat) \<and> of_char c \<le> (57 :: nat) \<or>
      97 \<le> (of_char c :: nat) \<and> of_char c \<le> (102 :: nat) \<or>
      65 \<le> (of_char c :: nat) \<and> of_char c \<le> (70 :: nat)"
    using of_nat_of_char [where ?'a = int, of c] by (auto simp del: of_nat_of_char)
  then have "(of_char c :: nat) \<in> set (map of_char (hex_chars @ hex_chars_lower))"
    unfolding hex_chars_def hex_chars_lower_def by (simp, presburger)
  then show "c \<in> set hex_chars \<union> set hex_chars_lower"
    by auto
qed

end
