(* ===== verification/Prng.thy ===== *)
theory Prng
  imports Prelude
begin

text \<open>
  The linear congruential generator and the xorshift mix that \<open>src/app_crypto.c\<close> draws
  initialisation vectors and salts from (\<open>src/persist_state.c\<close> uses the same generator for the
  fallback scalar). The generator has full period and the mix is injective, so no output repeats
  before \<open>2^32\<close> draws.
\<close>

definition lcg :: "u32 \<Rightarrow> u32" where
  "lcg x = x * 1664525 + 1013904223"

definition xorshift :: "u32 \<Rightarrow> u32" where
  "xorshift x =
     (let x = x XOR push_bit 13 x;
          x = x XOR drop_bit 17 x;
          x = x XOR push_bit 5 x
      in x)"

section \<open>The mix is injective\<close>

lemma xor_eq_0: "(a :: 'a::len word) XOR b = 0 \<longleftrightarrow> a = b"
  by (metis xor.assoc xor.right_neutral xor_self_eq)

lemma push_bit_fixpoint:
  fixes z :: "'a::len word"
  assumes "z = push_bit k z" "0 < k"
  shows "z = 0"
proof (rule bit_word_eqI)
  fix n
  have "\<not> bit z n"
  proof (induction n rule: less_induct)
    case (less n)
    show ?case
    proof
      assume "bit z n"
      then have "bit (push_bit k z) n"
        using assms(1) by simp
      then have "k \<le> n" "bit z (n - k)"
        by (simp_all add: bit_push_bit_iff)
      with less [of "n - k"] assms(2) show False
        by simp
    qed
  qed
  then show "bit z n = bit (0 :: 'a word) n"
    by simp
qed

lemma drop_bit_fixpoint:
  fixes z :: "'a::len word"
  assumes "z = drop_bit k z" "0 < k"
  shows "z = 0"
proof (rule bit_word_eqI)
  fix n
  assume n: "n < LENGTH('a)"
  have "m \<le> LENGTH('a) \<Longrightarrow> \<not> bit z (LENGTH('a) - m)" for m
  proof (induction m rule: less_induct)
    case (less m)
    show ?case
    proof
      assume b: "bit z (LENGTH('a) - m)"
      then have "bit (drop_bit k z) (LENGTH('a) - m)"
        using assms(1) by simp
      then have high: "bit z (LENGTH('a) - m + k)"
        by (simp add: bit_drop_bit_eq add.commute)
      then have "LENGTH('a) - m + k < LENGTH('a)"
        by (rule bit_imp_le_length)
      then have "LENGTH('a) - m + k = LENGTH('a) - (m - k)" "m - k < m" "m - k \<le> LENGTH('a)"
        using assms(2) less.prems by auto
      with less.IH high show False
        by metis
    qed
  qed
  from this [of "LENGTH('a) - n"] n show "bit z n = bit (0 :: 'a word) n"
    by simp
qed

lemma xor_push_bit_inj:
  fixes x y :: "'a::len word"
  assumes "x XOR push_bit k x = y XOR push_bit k y" "0 < k"
  shows "x = y"
proof -
  have "(x XOR y) XOR push_bit k (x XOR y) = (x XOR push_bit k x) XOR (y XOR push_bit k y)"
    by (simp add: push_bit_xor xor.assoc xor.left_commute)
  then have "x XOR y = push_bit k (x XOR y)"
    using assms(1) by (metis xor_eq_0)
  from push_bit_fixpoint [OF this assms(2)] show ?thesis
    by (simp add: xor_eq_0)
qed

lemma xor_drop_bit_inj:
  fixes x y :: "'a::len word"
  assumes "x XOR drop_bit k x = y XOR drop_bit k y" "0 < k"
  shows "x = y"
proof -
  have "(x XOR y) XOR drop_bit k (x XOR y) = (x XOR drop_bit k x) XOR (y XOR drop_bit k y)"
    by (simp add: drop_bit_xor xor.assoc xor.left_commute)
  then have "x XOR y = drop_bit k (x XOR y)"
    using assms(1) by (metis xor_eq_0)
  from drop_bit_fixpoint [OF this assms(2)] show ?thesis
    by (simp add: xor_eq_0)
qed

lemma xorshift_inj: "xorshift x = xorshift y \<longleftrightarrow> x = y"
proof
  let ?a = "\<lambda>x :: u32. x XOR push_bit 13 x"
  let ?b = "\<lambda>x :: u32. ?a x XOR drop_bit 17 (?a x)"
  assume "xorshift x = xorshift y"
  then have "?b x XOR push_bit 5 (?b x) = ?b y XOR push_bit 5 (?b y)"
    unfolding xorshift_def Let_def .
  then have "?b x = ?b y"
    by (rule xor_push_bit_inj) simp
  then have "?a x = ?a y"
    by (rule xor_drop_bit_inj) simp
  then show "x = y"
    by (rule xor_push_bit_inj) simp
qed simp

section \<open>The generator has full period\<close>

definition geometric :: "nat \<Rightarrow> nat \<Rightarrow> nat" where
  "geometric a n = (\<Sum>i<n. a ^ i)"

lemma geometric_Suc: "geometric a (Suc n) = a * geometric a n + 1"
  by (simp add: geometric_def sum.lessThan_Suc_shift sum_distrib_left del: sum.lessThan_Suc)

lemma geometric_add: "geometric a (m + n) = geometric a m + a ^ m * geometric a n"
  by (induction n) (simp_all add: geometric_def power_add algebra_simps)

lemma geometric_double: "geometric a (2 * n) = geometric a n * (1 + a ^ n)"
  using geometric_add [of a n n] unfolding mult_2 by (simp add: distrib_left mult.commute)

lemma power_mod_4: "a mod 4 = 1 \<Longrightarrow> a ^ n mod 4 = (1 :: nat)"
  using power_mod [of a 4 n] by simp

lemma odd_geometric: "a mod 4 = 1 \<Longrightarrow> odd (geometric a n) \<longleftrightarrow> odd n"
proof (induction n)
  case (Suc n)
  then have "odd a"
    by presburger
  with Suc show ?case
    by (simp add: geometric_Suc)
qed (simp add: geometric_def)

text \<open>The exponent of 2 in \<open>(a^n - 1) / (a - 1)\<close> is that of \<open>n\<close>.\<close>

lemma geometric_power_2_dvd:
  assumes a: "a mod 4 = 1"
  shows "2 ^ k dvd geometric a n \<longleftrightarrow> 2 ^ k dvd n"
proof (induction k arbitrary: n)
  case (Suc k)
  show ?case
  proof (cases "even n")
    case False
    then have "odd (geometric a n)"
      using odd_geometric [OF a] by simp
    with False show ?thesis
      by (meson dvd_power dvd_trans zero_less_Suc)
  next
    case True
    then obtain m where n: "n = 2 * m"
      by blast
    obtain q where q: "1 + a ^ m = 2 * q" "odd q"
    proof -
      have "a ^ m mod 4 = 1"
        by (rule power_mod_4 [OF a])
      then have "(1 + a ^ m) mod 4 = 2"
        by presburger
      then have "1 + a ^ m = 2 * ((1 + a ^ m) div 2)" "odd ((1 + a ^ m) div 2)"
        by presburger+
      then show ?thesis
        by (rule that)
    qed
    have "geometric a n = 2 * (geometric a m * q)"
      unfolding n geometric_double q(1) by simp
    then have "2 ^ Suc k dvd geometric a n \<longleftrightarrow> 2 ^ k dvd geometric a m * q"
      by simp
    also have "\<dots> \<longleftrightarrow> 2 ^ k dvd geometric a m"
      using q(2) by (simp add: coprime_dvd_mult_left_iff)
    also have "\<dots> \<longleftrightarrow> 2 ^ Suc k dvd n"
      unfolding Suc.IH n by simp
    finally show ?thesis .
  qed
qed simp

lemma lcg_iterate:
  "(lcg ^^ n) x = of_nat (1664525 ^ n) * x + of_nat (geometric 1664525 n) * 1013904223"
proof (induction n)
  case (Suc n)
  have "(lcg ^^ Suc n) x = lcg ((lcg ^^ n) x)"
    by simp
  also have "\<dots> = of_nat (1664525 ^ Suc n) * x + of_nat (geometric 1664525 (Suc n)) * 1013904223"
    unfolding Suc geometric_Suc lcg_def by (simp add: algebra_simps)
  finally show ?case .
qed (simp add: geometric_def)

lemma geometric_closed: "b * geometric (Suc b) n + 1 = Suc b ^ n"
proof (induction n)
  case (Suc n)
  have "b * geometric (Suc b) (Suc n) + 1 = Suc b * (b * geometric (Suc b) n + 1)"
    by (simp add: geometric_Suc algebra_simps)
  then show ?case
    by (simp only: Suc power_Suc)
qed (simp add: geometric_def)

lemma lcg_return:
  assumes "(lcg ^^ n) x = x"
  shows "2 ^ 32 dvd n"
proof -
  have "1664525 ^ n = 1664524 * geometric 1664525 n + 1"
    using geometric_closed [of 1664524 n] by simp
  then have "(lcg ^^ n) x = of_nat (1664524 * geometric 1664525 n + 1) * x + of_nat (geometric 1664525 n) * 1013904223"
    unfolding lcg_iterate by metis
  then have "of_nat (geometric 1664525 n) * (1664524 * x + 1013904223) = (0 :: u32)"
    using assms by (simp add: algebra_simps)
  then have "of_nat (geometric 1664525 n * (1664524 * unat x + 1013904223)) = (0 :: u32)"
    by simp
  then have "2 ^ 32 dvd geometric 1664525 n * (1664524 * unat x + 1013904223)"
    unfolding word_of_nat_eq_0_iff by simp
  moreover have "odd (1664524 * unat x + 1013904223)"
    by simp
  ultimately have "2 ^ 32 dvd geometric 1664525 n"
    by (meson coprime_dvd_mult_left_iff coprime_power_left_iff coprime_left_2_iff_odd)
  then show ?thesis
    by (subst (asm) geometric_power_2_dvd) simp_all
qed

text \<open>Two states of the generator agree exactly when their distance is a multiple of \<open>2^32\<close>.\<close>

lemma lcg_injective:
  assumes "(lcg ^^ m) x = (lcg ^^ n) x" "m \<le> n"
  shows "2 ^ 32 dvd n - m"
proof (rule lcg_return)
  show "(lcg ^^ (n - m)) ((lcg ^^ m) x) = (lcg ^^ m) x"
    using assms by (metis comp_apply funpow_add le_add_diff_inverse2)
qed

end
