(* ===== verification/Block_Cipher.thy ===== *)
theory Block_Cipher
  imports Prelude
begin

text \<open>
  The interface between the CTR mode of \<open>src/app_crypto.c\<close> and its block cipher. The definitions
  are the code's: \<open>increment_counter\<close> and the loop of \<open>ctr_process\<close>, over the block function
  \<open>enc\<close> that the loop calls. The locale \<open>block_cipher\<close> is what the mode needs of that function, and
  its lemmas are the facts about CTR mode; \<open>Simple_Aes\<close> interprets it with the AES of the firmware.
\<close>

section \<open>Counter mode, as the code has it\<close>

definition APP_CRYPTO_AES_BLOCK_BYTES :: nat where
  "APP_CRYPTO_AES_BLOCK_BYTES = 16"

definition APP_CRYPTO_IV_LEN :: nat where
  \<comment> \<open>\<open>APP_CRYPTO_AES_BLOCK_BYTES - (APP_CRYPTO_CTR_LEN_BITS / 8)\<close>\<close>
  "APP_CRYPTO_IV_LEN = APP_CRYPTO_AES_BLOCK_BYTES - 32 div 8"

lemma crypto_sizes [simp]: "APP_CRYPTO_AES_BLOCK_BYTES = 16" "APP_CRYPTO_IV_LEN = 12"
  by (simp_all add: APP_CRYPTO_AES_BLOCK_BYTES_def APP_CRYPTO_IV_LEN_def)

text \<open>The loop \<open>for (i = 15; i >= 12; i--) { counter[i]++; if (counter[i] != 0) break; }\<close>.\<close>

function increment_from :: "nat \<Rightarrow> u8 list \<Rightarrow> u8 list" where
  "increment_from i counter =
     (if APP_CRYPTO_IV_LEN \<le> i
      then let counter' = counter[i := counter ! i + 1]
           in if counter' ! i \<noteq> 0 then counter' else increment_from (i - 1) counter'
      else counter)"
  by pat_completeness auto
termination
  by (relation "measure fst") auto

declare increment_from.simps [simp del]

definition increment_counter :: "u8 list \<Rightarrow> u8 list" where
  "increment_counter counter = increment_from (APP_CRYPTO_AES_BLOCK_BYTES - 1) counter"

function ctr_loop :: "(u8 list \<Rightarrow> u8 list) \<Rightarrow> u8 list \<Rightarrow> u8 list \<Rightarrow> u8 list" where
  "ctr_loop enc counter input =
     (if 0 < length input
      then let stream = enc counter;
               chunk = min (length input) APP_CRYPTO_AES_BLOCK_BYTES
           in map (\<lambda>i. input ! i XOR stream ! i) [0..<chunk]
              @ ctr_loop enc (increment_counter counter) (drop chunk input)
      else [])"
  by pat_completeness auto
termination
  by (relation "measure (\<lambda>(enc, counter, input). length input)") auto

declare ctr_loop.simps [simp del]

section \<open>The counter\<close>

text \<open>The big-endian 32-bit representation of a block number.\<close>

definition be32 :: "nat \<Rightarrow> u8 list" where
  "be32 k = [of_nat (k div 2 ^ 24), of_nat (k div 2 ^ 16), of_nat (k div 2 ^ 8), of_nat k]"

lemma length_be32 [simp]: "length (be32 k) = 4"
  by (simp add: be32_def)

lemma be32_0: "be32 0 = [0, 0, 0, 0]"
  by (simp add: be32_def)

lemma byte_carry: "(of_nat (Suc k) :: u8) = 0 \<longleftrightarrow> Suc k mod 256 = 0"
  using word_of_nat_eq_0_iff [of "Suc k", where ?'a = 8] by (simp only: len_num0 power_numeral dvd_eq_mod_eq_0) simp

lemma carry_div: "(of_nat (Suc k) :: u8) = 0 \<Longrightarrow> Suc k div 256 = Suc (k div 256)"
  unfolding byte_carry by (simp only: div_Suc simp_thms if_True)

lemma no_carry_div: "(of_nat (Suc k) :: u8) \<noteq> 0 \<Longrightarrow> Suc k div 256 = k div 256"
  unfolding byte_carry by (simp only: div_Suc simp_thms if_False)

lemma increment_counter_be32:
  assumes iv: "length iv = 12"
  shows "increment_counter (iv @ be32 k) = iv @ be32 (Suc k)"
proof -
  define k1 k2 k3 where "k1 = k div 2 ^ 8" and "k2 = k div 2 ^ 16" and "k3 = k div 2 ^ 24"
  have k2: "k2 = k1 div 256" and k3: "k3 = k2 div 256"
    by (simp_all add: k1_def k2_def k3_def flip: div_mult2_eq)
  have be: "be32 k = [of_nat k3, of_nat k2, of_nat k1, of_nat k]"
    by (simp add: be32_def k1_def k2_def k3_def)
  have be': "be32 (Suc k) = [of_nat (Suc k div 256 div 256 div 256), of_nat (Suc k div 256 div 256),
      of_nat (Suc k div 256), of_nat (Suc k)]"
    by (simp add: be32_def flip: div_mult2_eq)
  have k1': "k1 = k div 256"
    by (simp add: k1_def)
  have upd: "increment_counter (iv @ be32 k) =
     (if (of_nat (Suc k) :: u8) \<noteq> 0 then iv @ [of_nat k3, of_nat k2, of_nat k1, of_nat (Suc k)]
      else if (of_nat (Suc k1) :: u8) \<noteq> 0 then iv @ [of_nat k3, of_nat k2, of_nat (Suc k1), 0]
      else if (of_nat (Suc k2) :: u8) \<noteq> 0 then iv @ [of_nat k3, of_nat (Suc k2), 0, 0]
      else iv @ [of_nat (Suc k3), 0, 0, 0])"
    using iv unfolding increment_counter_def be
    by (subst increment_from.simps, subst increment_from.simps, subst increment_from.simps,
        subst increment_from.simps, subst increment_from.simps)
      (simp add: nth_append list_update_append Let_def add.commute)
  show ?thesis
  proof (cases "(of_nat (Suc k) :: u8) = 0")
    case False
    then show ?thesis
      using no_carry_div [of k] by (simp add: upd be' k1' k2 k3)
  next
    case c0: True
    then have s1: "Suc k div 256 = Suc k1"
      by (simp only: carry_div k1')
    show ?thesis
    proof (cases "(of_nat (Suc k1) :: u8) = 0")
      case False
      then show ?thesis
        using no_carry_div [of k1] c0 by (simp add: upd be' s1 k2 k3)
    next
      case c1: True
      then have s2: "Suc k1 div 256 = Suc k2"
        by (simp only: carry_div k2)
      show ?thesis
      proof (cases "(of_nat (Suc k2) :: u8) = 0")
        case False
        then show ?thesis
          using no_carry_div [of k2] c0 c1 by (simp add: upd be' s1 s2 k3)
      next
        case c2: True
        then have "Suc k2 div 256 = Suc k3"
          by (simp only: carry_div k3)
        then show ?thesis
          using c0 c1 c2 by (simp add: upd be' s1 s2)
      qed
    qed
  qed
qed

lemma of_nat_u8_eq: "(of_nat a :: u8) = of_nat b \<longleftrightarrow> a mod 256 = b mod 256"
proof -
  have "(of_nat a :: u8) = of_nat b \<longleftrightarrow> unat (of_nat a :: u8) = unat (of_nat b :: u8)"
    by (rule word_unat_eq_iff)
  then show ?thesis
    by (simp add: unat_of_nat)
qed

lemma be32_inject:
  assumes "a < 2 ^ 32" "b < 2 ^ 32" "be32 a = be32 b"
  shows "a = b"
proof -
  have split: "k = ((k div 2 ^ 24) mod 256 * 2 ^ 24 + (k div 2 ^ 16) mod 256 * 2 ^ 16
      + (k div 2 ^ 8) mod 256 * 2 ^ 8 + k mod 256)" if "k < 2 ^ 32" for k :: nat
  proof -
    define q1 q2 q3 where "q1 = k div 2 ^ 8" and "q2 = k div 2 ^ 16" and "q3 = k div 2 ^ 24"
    have "q2 = q1 div 256" "q3 = q2 div 256"
      by (simp_all add: q1_def q2_def q3_def flip: div_mult2_eq)
    then have "q1 = q2 * 256 + q1 mod 256" "q2 = q3 * 256 + q2 mod 256"
      by presburger+
    moreover have "k = q1 * 256 + k mod 256"
      using div_mult_mod_eq [of k 256] by (simp add: q1_def)
    moreover have "q3 mod 256 = q3"
      using that by (simp add: q3_def less_mult_imp_div_less)
    ultimately have "k = q3 mod 256 * 2 ^ 24 + q2 mod 256 * 2 ^ 16 + q1 mod 256 * 2 ^ 8 + k mod 256"
      by simp
    then show ?thesis
      unfolding q1_def q2_def q3_def .
  qed
  have "be32 a = be32 b \<Longrightarrow> (a div 2 ^ 24) mod 256 = (b div 2 ^ 24) mod 256 \<and>
      (a div 2 ^ 16) mod 256 = (b div 2 ^ 16) mod 256 \<and> (a div 2 ^ 8) mod 256 = (b div 2 ^ 8) mod 256 \<and>
      a mod 256 = b mod 256"
    by (simp add: be32_def of_nat_u8_eq)
  with assms split [of a] split [of b] show ?thesis
    by metis
qed

section \<open>What counter mode needs of its block cipher\<close>

text \<open>
  The \<open>j\<close>-th byte of the keystream under the IV \<open>iv\<close>: byte \<open>j mod 16\<close> of the encryption of
  the counter block \<open>iv @ be32 (j div 16)\<close>. This is the textbook definition of counter mode, against
  which the loop is compared.
\<close>

definition keystream_byte :: "(u8 list \<Rightarrow> u8 list) \<Rightarrow> u8 list \<Rightarrow> nat \<Rightarrow> u8" where
  "keystream_byte enc iv j = enc (iv @ be32 (j div 16)) ! (j mod 16)"

lemma length_ctr_loop [simp]: "length (ctr_loop enc c input) = length input"
proof (induction enc c input rule: ctr_loop.induct)
  case (1 enc c input)
  then show ?case
    by (subst ctr_loop.simps) (auto simp: Let_def)
qed

text \<open>The loop started at block \<open>k\<close> produces the textbook stream from byte \<open>16 k\<close> on.\<close>

lemma ctr_loop_nth:
  assumes "length iv = 12" "i < length input"
  shows "ctr_loop enc (iv @ be32 k) input ! i = input ! i XOR keystream_byte enc iv (16 * k + i)"
  using assms
proof (induction "length input" arbitrary: k i input rule: less_induct)
  case less
  let ?chunk = "min (length input) 16"
  have unfold: "ctr_loop enc (iv @ be32 k) input =
      map (\<lambda>i. input ! i XOR enc (iv @ be32 k) ! i) [0..<?chunk]
      @ ctr_loop enc (iv @ be32 (Suc k)) (drop ?chunk input)"
    using less.prems by (subst ctr_loop.simps) (auto simp: Let_def increment_counter_be32)
  show ?case
  proof (cases "i < 16")
    case True
    with less.prems show ?thesis
      by (simp add: unfold nth_append keystream_byte_def)
  next
    case False
    then have "ctr_loop enc (iv @ be32 (Suc k)) (drop 16 input) ! (i - 16) =
        drop 16 input ! (i - 16) XOR keystream_byte enc iv (16 * Suc k + (i - 16))"
      using less.prems by (intro less.hyps) simp_all
    moreover have "?chunk = 16"
      using False less.prems by simp
    ultimately show ?thesis
      using False less.prems by (simp add: unfold nth_append)
  qed
qed

locale block_cipher =
  fixes enc :: "u8 list \<Rightarrow> u8 list"
  assumes enc_length: "length b = 16 \<Longrightarrow> length (enc b) = 16"
    and enc_inj: "length a = 16 \<Longrightarrow> length b = 16 \<Longrightarrow> enc a = enc b \<Longrightarrow> a = b"
begin

text \<open>Applying the mode twice with the same IV gives the input back.\<close>

lemma ctr_involution:
  assumes "length iv = 12"
  shows "ctr_loop enc (iv @ be32 0) (ctr_loop enc (iv @ be32 0) input) = input"
  by (rule nth_equalityI) (simp_all add: ctr_loop_nth assms xor.assoc)

text \<open>
  Keystream blocks differ when the IV or the block number differs, as long as the 32-bit block
  number has not wrapped.
\<close>

lemma keystream_blocks_distinct:
  assumes "length iv = 12" "length iv' = 12" "a < 2 ^ 32" "b < 2 ^ 32"
    and "(iv, a) \<noteq> (iv', b)"
  shows "enc (iv @ be32 a) \<noteq> enc (iv' @ be32 b)"
proof
  assume "enc (iv @ be32 a) = enc (iv' @ be32 b)"
  then have "iv @ be32 a = iv' @ be32 b"
    by (rule enc_inj [rotated 2]) (simp_all add: assms(1,2))
  then have "iv = iv'" "be32 a = be32 b"
    using append_eq_append_conv [of iv iv' "be32 a" "be32 b"] assms(1,2) by simp_all
  with assms(5) be32_inject [OF assms(3,4)] show False
    by blast
qed

text \<open>After \<open>2^32\<close> blocks the counter wraps and the stream repeats: the bound above is sharp.\<close>

lemma keystream_repeats: "enc (iv @ be32 (k + 2 ^ 32)) = enc (iv @ be32 k)"
proof -
  have "(k + 2 ^ 32) div 2 ^ 24 = k div 2 ^ 24 + 256" "(k + 2 ^ 32) div 2 ^ 16 = k div 2 ^ 16 + 65536"
    "(k + 2 ^ 32) div 2 ^ 8 = k div 2 ^ 8 + 16777216"
    by simp_all
  moreover have "(x + 256) mod 256 = x mod 256" "(x + 65536) mod 256 = x mod 256"
    "(x + 16777216) mod 256 = x mod 256" "(x + 2 ^ 32) mod 256 = x mod 256" for x :: nat
    using mod_mult_self1 [of x 256 256] mod_mult_self1 [of x 65536 256] mod_mult_self1 [of x 16777216 256]
    by simp_all
  ultimately have "be32 (k + 2 ^ 32) = be32 k"
    unfolding be32_def list.inject of_nat_u8_eq by metis
  then show ?thesis
    by simp
qed

end

end
