(* ===== verification/Simple_Aes.thy ===== *)
theory Simple_Aes
  imports Prelude Block_Cipher
begin

text \<open>
  \<open>src/simple_aes.c\<close>: AES key expansion and single-block encryption. A byte array is the list of its
  bytes; an in-place update of a 16-byte \<open>state\<close> is a function from the old array to the new one.
  The lemmas show that the S-box is the standard's (hence a permutation), that the key schedule
  satisfies the standard's recurrence and stays inside its buffer, and that every block operation can be undone, so that a
  block encryption under any round keys is injective; the published test vectors are evaluated.
\<close>

section \<open>Tables\<close>

definition SIMPLE_AES_BLOCK_BYTES :: nat where
  "SIMPLE_AES_BLOCK_BYTES = 16"

definition SIMPLE_AES_MAX_ROUNDS :: nat where
  "SIMPLE_AES_MAX_ROUNDS = 14"

definition sbox_rows :: "u8 list list" where
  \<comment> \<open>the sixteen lines of the initialiser\<close>
  "sbox_rows = [
     [99, 124, 119, 123, 242, 107, 111, 197, 48, 1, 103, 43, 254, 215, 171, 118],
     [202, 130, 201, 125, 250, 89, 71, 240, 173, 212, 162, 175, 156, 164, 114, 192],
     [183, 253, 147, 38, 54, 63, 247, 204, 52, 165, 229, 241, 113, 216, 49, 21],
     [4, 199, 35, 195, 24, 150, 5, 154, 7, 18, 128, 226, 235, 39, 178, 117],
     [9, 131, 44, 26, 27, 110, 90, 160, 82, 59, 214, 179, 41, 227, 47, 132],
     [83, 209, 0, 237, 32, 252, 177, 91, 106, 203, 190, 57, 74, 76, 88, 207],
     [208, 239, 170, 251, 67, 77, 51, 133, 69, 249, 2, 127, 80, 60, 159, 168],
     [81, 163, 64, 143, 146, 157, 56, 245, 188, 182, 218, 33, 16, 255, 243, 210],
     [205, 12, 19, 236, 95, 151, 68, 23, 196, 167, 126, 61, 100, 93, 25, 115],
     [96, 129, 79, 220, 34, 42, 144, 136, 70, 238, 184, 20, 222, 94, 11, 219],
     [224, 50, 58, 10, 73, 6, 36, 92, 194, 211, 172, 98, 145, 149, 228, 121],
     [231, 200, 55, 109, 141, 213, 78, 169, 108, 86, 244, 234, 101, 122, 174, 8],
     [186, 120, 37, 46, 28, 166, 180, 198, 232, 221, 116, 31, 75, 189, 139, 138],
     [112, 62, 181, 102, 72, 3, 246, 14, 97, 53, 87, 185, 134, 193, 29, 158],
     [225, 248, 152, 17, 105, 217, 142, 148, 155, 30, 135, 233, 206, 85, 40, 223],
     [140, 161, 137, 13, 191, 230, 66, 104, 65, 153, 45, 15, 176, 84, 187, 22]]"

definition sbox :: "u8 list" where
  "sbox = concat sbox_rows"

definition Rcon :: "u8 list" where
  "Rcon = [0x00, 0x01, 0x02, 0x04, 0x08, 0x10, 0x20, 0x40, 0x80, 0x1B, 0x36]"

record simple_aes_ctx =
  round_keys :: "u8 list"
  rounds :: u8

section \<open>Field arithmetic\<close>

definition xtime :: "u8 \<Rightarrow> u8" where
  "xtime x = push_bit 1 x XOR (drop_bit 7 x * 0x1B)"

text \<open>The loop of \<open>gf_mul\<close>: \<open>while (b != 0)\<close>, with \<open>b\<close> shifted right in each round.\<close>

function gf_mul_loop :: "u8 \<Rightarrow> u8 \<Rightarrow> u8 \<Rightarrow> u8" where
  "gf_mul_loop a b res =
     (if b \<noteq> 0
      then gf_mul_loop (xtime a) (drop_bit 1 b) (if b AND 1 \<noteq> 0 then res XOR a else res)
      else res)"
  by pat_completeness auto
termination
proof (relation "measure (\<lambda>(a, b, res). unat b)")
  fix a b res :: u8
  assume "b \<noteq> 0"
  then have "unat b \<noteq> 0"
    by (simp add: unat_eq_0)
  moreover have "unat (drop_bit 1 b) = unat b div 2"
    by (simp only: unat_drop_bit_eq drop_bit_eq_div [where 'a = nat] power_one_right)
  ultimately have "unat (drop_bit 1 b) < unat b"
    by simp
  then show "((xtime a, drop_bit 1 b, if b AND 1 \<noteq> 0 then res XOR a else res), a, b, res)
      \<in> measure (\<lambda>(a, b, res). unat b)"
    by simp
qed simp

declare gf_mul_loop.simps [simp del]

definition gf_mul :: "u8 \<Rightarrow> u8 \<Rightarrow> u8" where
  "gf_mul a b = gf_mul_loop a b 0"

section \<open>Key expansion\<close>

definition sub_word :: "u8 list \<Rightarrow> u8 list" where
  "sub_word w = [sbox ! unat (w ! 0), sbox ! unat (w ! 1), sbox ! unat (w ! 2), sbox ! unat (w ! 3)]"

definition rot_word :: "u8 list \<Rightarrow> u8 list" where
  "rot_word w = [w ! 1, w ! 2, w ! 3, w ! 0]"

text \<open>The four bytes \<open>temp\<close> that iteration \<open>i\<close> of the expansion loop adds to word \<open>i - Nk\<close>.\<close>

definition key_temp :: "nat \<Rightarrow> nat \<Rightarrow> u8 list \<Rightarrow> u8 list" where
  "key_temp Nk i temp =
     (if i mod Nk = 0
      then (let t = sub_word (rot_word temp) in t[0 := t ! 0 XOR Rcon ! (i div Nk)])
      else if Nk > 6 \<and> i mod Nk = 4 then sub_word temp
      else temp)"

definition key_step :: "nat \<Rightarrow> nat \<Rightarrow> u8 list \<Rightarrow> u8 list" where
  "key_step Nk i rk =
     (let temp = key_temp Nk i (take 4 (drop (4 * (i - 1)) rk))
      in fold (\<lambda>j rk. rk[4 * i + j := rk ! (4 * (i - Nk) + j) XOR temp ! j]) [0..<4] rk)"

definition simple_aes_setkey_enc :: "simple_aes_ctx \<Rightarrow> u8 list \<Rightarrow> nat \<Rightarrow> rc \<times> simple_aes_ctx" where
  "simple_aes_setkey_enc ctx key key_len =
     (if key_len \<noteq> 16 \<and> key_len \<noteq> 24 \<and> key_len \<noteq> 32 then (-1, ctx)
      else let Nk = key_len div 4;
               rnds = Nk + 6;
               total_words = 4 * (rnds + 1);
               rk = take key_len key @ drop key_len (round_keys ctx)
           in (0, \<lparr>round_keys = fold (key_step Nk) [Nk..<total_words] rk, rounds = of_nat rnds\<rparr>))"

section \<open>Block encryption\<close>

definition sub_bytes :: "u8 list \<Rightarrow> u8 list" where
  "sub_bytes state = map (\<lambda>i. sbox ! unat (state ! i)) [0..<SIMPLE_AES_BLOCK_BYTES]"

definition shift_rows :: "u8 list \<Rightarrow> u8 list" where
  "shift_rows tmp =
     [tmp ! 0, tmp ! 5, tmp ! 10, tmp ! 15,
      tmp ! 4, tmp ! 9, tmp ! 14, tmp ! 3,
      tmp ! 8, tmp ! 13, tmp ! 2, tmp ! 7,
      tmp ! 12, tmp ! 1, tmp ! 6, tmp ! 11]"

definition mix_column :: "u8 list \<Rightarrow> nat \<Rightarrow> u8 list" where
  "mix_column state c =
     (let idx = c * 4;
          a0 = state ! idx; a1 = state ! (idx + 1); a2 = state ! (idx + 2); a3 = state ! (idx + 3)
      in [gf_mul a0 2 XOR gf_mul a1 3 XOR a2 XOR a3,
          a0 XOR gf_mul a1 2 XOR gf_mul a2 3 XOR a3,
          a0 XOR a1 XOR gf_mul a2 2 XOR gf_mul a3 3,
          gf_mul a0 3 XOR a1 XOR a2 XOR gf_mul a3 2])"

definition mix_columns :: "u8 list \<Rightarrow> u8 list" where
  \<comment> \<open>column \<open>c\<close> is read and written by iteration \<open>c\<close> only, so the four iterations concatenate\<close>
  "mix_columns state = concat (map (mix_column state) [0..<4])"

definition add_round_key :: "u8 list \<Rightarrow> u8 list \<Rightarrow> u8 list" where
  "add_round_key state round_key = map (\<lambda>i. state ! i XOR round_key ! i) [0..<SIMPLE_AES_BLOCK_BYTES]"

definition aes_round :: "simple_aes_ctx \<Rightarrow> nat \<Rightarrow> u8 list \<Rightarrow> u8 list" where
  "aes_round ctx round state =
     add_round_key (mix_columns (shift_rows (sub_bytes state)))
       (drop (SIMPLE_AES_BLOCK_BYTES * round) (round_keys ctx))"

definition simple_aes_encrypt_block :: "simple_aes_ctx \<Rightarrow> u8 list \<Rightarrow> u8 list" where
  "simple_aes_encrypt_block ctx input =
     (let state = take SIMPLE_AES_BLOCK_BYTES input;
          state = add_round_key state (round_keys ctx);
          state = fold (aes_round ctx) [1..<unat (rounds ctx)] state;
          state = shift_rows (sub_bytes state)
      in add_round_key state (drop (SIMPLE_AES_BLOCK_BYTES * unat (rounds ctx)) (round_keys ctx)))"

lemma BLOCK_BYTES [simp]: "SIMPLE_AES_BLOCK_BYTES = 16"
  by (simp add: SIMPLE_AES_BLOCK_BYTES_def)

lemma block_lengths [simp]:
  "length (sub_bytes st) = 16" "length (shift_rows st) = 16" "length (mix_columns st) = 16"
  "length (add_round_key st rk) = 16" "length (aes_round ctx r st) = 16"
  "length (simple_aes_encrypt_block ctx b) = 16"
  by (simp_all add: sub_bytes_def shift_rows_def mix_columns_def mix_column_def add_round_key_def
      aes_round_def simple_aes_encrypt_block_def Let_def numeral_eq_Suc)

section \<open>The tables\<close>

lemma length_sbox [simp]: "length sbox = 256"
  by (simp add: sbox_def sbox_rows_def)

lemma concat_rows_nth:
  "\<forall>r \<in> set rows. length r = 16 \<Longrightarrow> i < 16 * length rows \<Longrightarrow>
     concat rows ! i = rows ! (i div 16) ! (i mod 16)"
proof (induction rows arbitrary: i)
  case (Cons r rows)
  show ?case
  proof (cases "i < 16")
    case False
    then have "i div 16 = Suc ((i - 16) div 16)" "i mod 16 = (i - 16) mod 16"
      by (simp_all add: le_div_geq le_mod_geq)
    with Cons False show ?thesis
      by (simp add: nth_append)
  qed (use Cons in \<open>simp add: nth_append\<close>)
qed simp

lemma sbox_nth: "i < 256 \<Longrightarrow> sbox ! i = sbox_rows ! (i div 16) ! (i mod 16)"
  unfolding sbox_def by (rule concat_rows_nth) (simp_all add: sbox_rows_def)

lemma distinct_sbox_values: "distinct (map uint sbox)"
  unfolding sbox_def sbox_rows_def concat.simps append.simps list.map by simp

lemma distinct_sbox: "distinct sbox"
  using distinct_sbox_values by (simp add: distinct_map)

lemma sbox_nth_inj: "sbox ! unat (a :: u8) = sbox ! unat b \<longleftrightarrow> a = b"
  by (metis nth_eq_iff_index_eq distinct_sbox length_sbox unat_u8_less word_unat_eq_iff)

section \<open>Field arithmetic\<close>

lemma xor_left_cancel [simp]: "(a :: 'a::len word) XOR (a XOR b) = b"
  by (simp flip: xor.assoc)

lemmas xor_ac = xor.assoc xor.commute xor.left_commute

lemma xtime_alt: "xtime x = push_bit 1 x XOR (if bit x 7 then 0x1B else 0)"
proof -
  have "drop_bit 7 x = (if bit x 7 then 1 else 0)"
  proof (rule bit_word_eqI)
    fix i
    have "bit x (7 + i) \<Longrightarrow> i = 0"
      using bit_imp_le_length [of x "7 + i"] by simp
    then show "bit (drop_bit 7 x) i = bit (if bit x 7 then 1 else 0 :: u8) i"
      by (auto simp: bit_drop_bit_eq bit_1_iff)
  qed
  then show ?thesis
    by (simp add: xtime_def)
qed

lemma xtime_xor: "xtime (a XOR b) = xtime a XOR xtime b"
  by (auto simp: xtime_alt bit_xor_iff push_bit_xor xor_ac)

lemma gf_mul_0 [simp]: "gf_mul a 0 = 0"
  by (simp add: gf_mul_def gf_mul_loop.simps)

lemma gf_mul_1 [simp]: "gf_mul a 1 = a"
  by (simp add: gf_mul_def gf_mul_loop.simps)

lemma gf_mul_2: "gf_mul a 2 = xtime a"
  by (simp add: gf_mul_def gf_mul_loop.simps)

lemma gf_mul_3: "gf_mul a 3 = a XOR xtime a"
  by (simp add: gf_mul_def gf_mul_loop.simps)

section \<open>Every block operation can be undone\<close>

lemma nth_upt_map_eq:
  assumes "map f [0..<n] = map g [0..<n]" "i < n"
  shows "f i = g i"
  using arg_cong [OF assms(1), of "\<lambda>xs. xs ! i"] assms(2) by simp

lemma sub_bytes_inj:
  assumes "length a = 16" "length b = 16" "sub_bytes a = sub_bytes b"
  shows "a = b"
proof (rule nth_equalityI)
  fix i
  assume "i < length a"
  with assms nth_upt_map_eq [of "\<lambda>i. sbox ! unat (a ! i)" 16 "\<lambda>i. sbox ! unat (b ! i)" i]
  show "a ! i = b ! i"
    by (simp add: sub_bytes_def sbox_nth_inj)
qed (simp add: assms)

lemma add_round_key_inj:
  assumes "length a = 16" "length b = 16" "add_round_key a rk = add_round_key b rk"
  shows "a = b"
proof (rule nth_equalityI)
  fix i
  assume i: "i < length a"
  have "a ! i XOR rk ! i = b ! i XOR rk ! i"
    using assms i nth_upt_map_eq [of "\<lambda>i. a ! i XOR rk ! i" 16 "\<lambda>i. b ! i XOR rk ! i" i]
    by (simp add: add_round_key_def)
  then show "a ! i = b ! i"
    by (metis xor.commute xor_left_cancel)
qed (simp add: assms)

lemma all_below_16:
  "(\<forall>i < 16. P i) \<longleftrightarrow> P 0 \<and> P 1 \<and> P 2 \<and> P 3 \<and> P 4 \<and> P 5 \<and> P 6 \<and> P 7 \<and> P 8 \<and> P 9 \<and> P 10 \<and> P 11
     \<and> P 12 \<and> P 13 \<and> P 14 \<and> P (15 :: nat)"
  by (simp add: numeral_eq_Suc All_less_Suc2)

lemma block_eqI:
  assumes "length a = 16" "length b = 16" "\<forall>i < 16. a ! i = b ! i"
  shows "a = b"
  using assms by (simp add: list_eq_iff_nth_eq)

lemma shift_rows_inj:
  assumes "length a = 16" "length b = 16" "shift_rows a = shift_rows b"
  shows "a = b"
proof (rule block_eqI)
  show "\<forall>i < 16. a ! i = b ! i"
    using assms(3) unfolding all_below_16 by (simp add: shift_rows_def)
qed (rule assms)+

text \<open>The inverse of one column: the matrix rows 14, 11, 13, 9 of the standard's inverse transform.\<close>

definition unmix :: "u8 \<Rightarrow> u8 \<Rightarrow> u8 \<Rightarrow> u8 \<Rightarrow> u8" where
  "unmix b0 b1 b2 b3 =
     (let t = (\<lambda>n x. (xtime ^^ n) x) in
      (t 3 b0 XOR t 2 b0 XOR t 1 b0) XOR (t 3 b1 XOR t 1 b1 XOR b1)
      XOR (t 3 b2 XOR t 2 b2 XOR b2) XOR (t 3 b3 XOR b3))"

definition mixed :: "u8 \<Rightarrow> u8 \<Rightarrow> u8 \<Rightarrow> u8 \<Rightarrow> u8" where
  "mixed a0 a1 a2 a3 = xtime a0 XOR (a1 XOR xtime a1) XOR a2 XOR a3"

lemma unmix_mixed:
  "unmix (mixed a0 a1 a2 a3) (mixed a1 a2 a3 a0) (mixed a2 a3 a0 a1) (mixed a3 a0 a1 a2) = a0"
  by (simp add: unmix_def mixed_def xtime_xor numeral_eq_Suc xor_ac)

lemma mix_column_mixed:
  "mix_column st c =
     [mixed (st ! (c * 4)) (st ! (c * 4 + 1)) (st ! (c * 4 + 2)) (st ! (c * 4 + 3)),
      mixed (st ! (c * 4 + 1)) (st ! (c * 4 + 2)) (st ! (c * 4 + 3)) (st ! (c * 4)),
      mixed (st ! (c * 4 + 2)) (st ! (c * 4 + 3)) (st ! (c * 4)) (st ! (c * 4 + 1)),
      mixed (st ! (c * 4 + 3)) (st ! (c * 4)) (st ! (c * 4 + 1)) (st ! (c * 4 + 2))]"
  by (simp add: mix_column_def mixed_def gf_mul_2 gf_mul_3 Let_def xor_ac)

lemma mixed_inj:
  assumes "mixed a0 a1 a2 a3 = mixed b0 b1 b2 b3" "mixed a1 a2 a3 a0 = mixed b1 b2 b3 b0"
    "mixed a2 a3 a0 a1 = mixed b2 b3 b0 b1" "mixed a3 a0 a1 a2 = mixed b3 b0 b1 b2"
  shows "a0 = b0 \<and> a1 = b1 \<and> a2 = b2 \<and> a3 = b3"
  using assms by (metis unmix_mixed)

lemma mix_column_inj:
  "mix_column a c = mix_column b c \<Longrightarrow>
     a ! (c * 4) = b ! (c * 4) \<and> a ! (c * 4 + 1) = b ! (c * 4 + 1) \<and>
     a ! (c * 4 + 2) = b ! (c * 4 + 2) \<and> a ! (c * 4 + 3) = b ! (c * 4 + 3)"
  unfolding mix_column_mixed list.inject by (elim conjE) (rule mixed_inj)

lemma length_mix_column [simp]: "length (mix_column st c) = 4"
  by (simp add: mix_column_def Let_def)

lemma mix_columns_inj:
  assumes "length a = 16" "length b = 16" "mix_columns a = mix_columns b"
  shows "a = b"
proof (rule block_eqI)
  have "mix_column a 0 = mix_column b 0" "mix_column a 1 = mix_column b 1"
    "mix_column a 2 = mix_column b 2" "mix_column a 3 = mix_column b 3"
    using assms(3) by (simp_all add: mix_columns_def numeral_eq_Suc)
  from this [THEN mix_column_inj] show "\<forall>i < 16. a ! i = b ! i"
    unfolding all_below_16 by (simp add: numeral_2_eq_2)
qed (rule assms)+

lemma aes_round_inj:
  assumes "length a = 16" "length b = 16" "aes_round ctx r a = aes_round ctx r b"
  shows "a = b"
proof -
  have "mix_columns (shift_rows (sub_bytes a)) = mix_columns (shift_rows (sub_bytes b))"
    using assms(3) unfolding aes_round_def by (rule add_round_key_inj [rotated 2]) simp_all
  then have "shift_rows (sub_bytes a) = shift_rows (sub_bytes b)"
    by (rule mix_columns_inj [rotated 2]) simp_all
  then have "sub_bytes a = sub_bytes b"
    by (rule shift_rows_inj [rotated 2]) simp_all
  with assms(1,2) show ?thesis
    by (rule sub_bytes_inj)
qed

lemma fold_round_length: "length st = 16 \<Longrightarrow> length (fold (aes_round ctx) rs st) = 16"
  by (induction rs arbitrary: st) simp_all

lemma fold_round_inj:
  "length a = 16 \<Longrightarrow> length b = 16 \<Longrightarrow> fold (aes_round ctx) rs a = fold (aes_round ctx) rs b \<Longrightarrow> a = b"
proof (induction rs arbitrary: a b)
  case (Cons r rs)
  from Cons.prems(3) have "aes_round ctx r a = aes_round ctx r b"
    unfolding fold_Cons comp_apply by (rule Cons.IH [OF block_lengths(5) block_lengths(5)])
  with Cons.prems(1,2) show ?case
    by (rule aes_round_inj)
qed simp

lemma encrypt_block_inj:
  assumes a: "length a = 16" and b: "length b = 16"
    and eq: "simple_aes_encrypt_block ctx a = simple_aes_encrypt_block ctx b"
  shows "a = b"
proof -
  let ?s = "\<lambda>x. fold (aes_round ctx) [1..<unat (rounds ctx)] (add_round_key x (round_keys ctx))"
  have "shift_rows (sub_bytes (?s a)) = shift_rows (sub_bytes (?s b))"
    using eq a b unfolding simple_aes_encrypt_block_def Let_def
    by (intro add_round_key_inj [of "shift_rows (sub_bytes (?s a))"]) simp_all
  then have "sub_bytes (?s a) = sub_bytes (?s b)"
    by (rule shift_rows_inj [rotated 2]) simp_all
  then have "?s a = ?s b"
    by (rule sub_bytes_inj [rotated 2]) (simp_all add: fold_round_length)
  then have "add_round_key a (round_keys ctx) = add_round_key b (round_keys ctx)"
    by (rule fold_round_inj [rotated 2]) simp_all
  with a b show ?thesis
    by (rule add_round_key_inj)
qed

section \<open>The key schedule\<close>

text \<open>Word \<open>i\<close> of the key schedule: bytes \<open>4i .. 4i+3\<close> of \<open>round_keys\<close>.\<close>

definition rk_word :: "u8 list \<Rightarrow> nat \<Rightarrow> u8 list" where
  "rk_word rk i = take 4 (drop (4 * i) rk)"

lemma length_rk_word: "4 * i + 4 \<le> length rk \<Longrightarrow> length (rk_word rk i) = 4"
  by (simp add: rk_word_def)

lemma rk_word_nth: "j < 4 \<Longrightarrow> 4 * i + 4 \<le> length rk \<Longrightarrow> rk_word rk i ! j = rk ! (4 * i + j)"
  by (simp add: rk_word_def)

lemma all_below_4: "(\<forall>j < 4. P j) \<longleftrightarrow> P 0 \<and> P 1 \<and> P 2 \<and> P (3 :: nat)"
  by (simp add: numeral_eq_Suc All_less_Suc2)

lemma word_eqI4:
  assumes "length a = 4" "length b = 4" "\<forall>j < 4. a ! j = b ! j"
  shows "a = b"
  using assms by (simp add: list_eq_iff_nth_eq)

lemma upt_0_4: "[0..<4] = [0, 1, 2, 3]"
  by (simp add: upt_rec)

lemma length_key_temp: "length w = 4 \<Longrightarrow> length (key_temp Nk i w) = 4"
  by (simp add: key_temp_def sub_word_def rot_word_def Let_def)

lemma length_key_step [simp]: "length (key_step Nk i rk) = length rk"
  by (simp add: key_step_def Let_def numeral_eq_Suc)

lemma length_fold_key_step [simp]: "length (fold (key_step Nk) is rk) = length rk"
  by (induction "is" arbitrary: rk) simp_all

text \<open>One iteration writes exactly word \<open>i\<close>, from word \<open>i - Nk\<close> and the word before it.\<close>

lemma key_step_nth:
  assumes "0 < Nk" "Nk \<le> i" "4 * i + 4 \<le> length rk"
  shows "key_step Nk i rk ! k =
     (if 4 * i \<le> k \<and> k < 4 * i + 4
      then rk ! (4 * (i - Nk) + (k - 4 * i)) XOR key_temp Nk i (rk_word rk (i - 1)) ! (k - 4 * i)
      else rk ! k)"
proof -
  let ?t = "key_temp Nk i (rk_word rk (i - 1))"
  have off: "4 * (i - Nk) + 4 \<le> 4 * i"
    using assms by simp
  have upd: "key_step Nk i rk = rk
      [4 * i := rk ! (4 * (i - Nk)) XOR ?t ! 0,
       4 * i + 1 := rk ! (4 * (i - Nk) + 1) XOR ?t ! 1,
       4 * i + 2 := rk ! (4 * (i - Nk) + 2) XOR ?t ! 2,
       4 * i + 3 := rk ! (4 * (i - Nk) + 3) XOR ?t ! 3]"
    using off by (simp add: key_step_def rk_word_def Let_def upt_0_4)
  consider "k < 4 * i" | "k = 4 * i" | "k = 4 * i + 1" | "k = 4 * i + 2" | "k = 4 * i + 3"
    | "4 * i + 4 \<le> k"
    by linarith
  then show ?thesis
    unfolding upd using assms(3) by cases simp_all
qed

lemma key_step_word:
  assumes "0 < Nk" "Nk \<le> i" "4 * i + 4 \<le> length rk"
  shows "rk_word (key_step Nk i rk) i =
     xor_bytes (rk_word rk (i - Nk)) (key_temp Nk i (rk_word rk (i - 1)))"
proof (rule word_eqI4)
  have len: "length (key_temp Nk i (rk_word rk (i - 1))) = 4"
    using assms by (intro length_key_temp length_rk_word) simp
  have len': "length (rk_word rk (i - Nk)) = 4"
    using assms by (intro length_rk_word) simp
  show "length (rk_word (key_step Nk i rk) i) = 4"
    using assms by (simp add: length_rk_word)
  show "length (xor_bytes (rk_word rk (i - Nk)) (key_temp Nk i (rk_word rk (i - 1)))) = 4"
    unfolding length_xor_bytes len len' by simp
  show "\<forall>j < 4. rk_word (key_step Nk i rk) i ! j =
      xor_bytes (rk_word rk (i - Nk)) (key_temp Nk i (rk_word rk (i - 1))) ! j"
    using assms by (simp add: rk_word_nth key_step_nth len [unfolded One_nat_def] len')
qed

lemma key_step_other_word:
  assumes "0 < Nk" "Nk \<le> i" "4 * i + 4 \<le> length rk" "m \<noteq> i" "4 * m + 4 \<le> length rk"
  shows "rk_word (key_step Nk i rk) m = rk_word rk m"
  by (rule word_eqI4) (use assms in \<open>auto simp: length_rk_word rk_word_nth key_step_nth\<close>)

text \<open>The loop over \<open>[Nk..<n]\<close> leaves the recurrence behind for every word it has written.\<close>

lemma key_schedule_words:
  assumes Nk: "0 < Nk" and n: "Nk \<le> n" "4 * n \<le> length rk"
  shows "(\<forall>m. m < Nk \<or> n \<le> m \<longrightarrow> 4 * m + 4 \<le> length rk \<longrightarrow>
            rk_word (fold (key_step Nk) [Nk..<n] rk) m = rk_word rk m) \<and>
     (\<forall>i. Nk \<le> i \<longrightarrow> i < n \<longrightarrow>
        rk_word (fold (key_step Nk) [Nk..<n] rk) i =
          xor_bytes (rk_word (fold (key_step Nk) [Nk..<n] rk) (i - Nk))
            (key_temp Nk i (rk_word (fold (key_step Nk) [Nk..<n] rk) (i - 1))))"
  using n
proof (induction n)
  case 0
  with Nk show ?case
    by simp
next
  case (Suc n)
  show ?case
  proof (cases "Nk \<le> n")
    case False
    with Suc.prems have "Nk = Suc n"
      by simp
    then show ?thesis
      by simp
  next
    case True
    let ?r = "fold (key_step Nk) [Nk..<n] rk"
    have IH1: "\<And>m. m < Nk \<or> n \<le> m \<Longrightarrow> 4 * m + 4 \<le> length rk \<Longrightarrow> rk_word ?r m = rk_word rk m"
      and IH2: "\<And>i. Nk \<le> i \<Longrightarrow> i < n \<Longrightarrow> rk_word ?r i =
          xor_bytes (rk_word ?r (i - Nk)) (key_temp Nk i (rk_word ?r (i - 1)))"
      using Suc.IH True Suc.prems by auto
    have last: "fold (key_step Nk) [Nk..<Suc n] rk = key_step Nk n ?r"
      using True by simp
    have other: "rk_word (key_step Nk n ?r) m = rk_word ?r m"
      if "m \<noteq> n" "4 * m + 4 \<le> length rk" for m
      using that Nk True Suc.prems by (intro key_step_other_word) simp_all
    have this_word: "rk_word (key_step Nk n ?r) n =
        xor_bytes (rk_word ?r (n - Nk)) (key_temp Nk n (rk_word ?r (n - 1)))"
      using Nk True Suc.prems by (intro key_step_word) simp_all
    have "rk_word (key_step Nk n ?r) i =
        xor_bytes (rk_word (key_step Nk n ?r) (i - Nk))
          (key_temp Nk i (rk_word (key_step Nk n ?r) (i - 1)))"
      if i: "Nk \<le> i" "i < Suc n" for i
    proof -
      have prev: "rk_word (key_step Nk n ?r) (i - Nk) = rk_word ?r (i - Nk)"
        "rk_word (key_step Nk n ?r) (i - 1) = rk_word ?r (i - 1)"
        using i Nk Suc.prems by (auto intro!: other)
      show ?thesis
      proof (cases "i = n")
        case True
        then show ?thesis
          using this_word prev by simp
      next
        case False
        then have "rk_word (key_step Nk n ?r) i = rk_word ?r i"
          using i Suc.prems by (intro other) simp_all
        with False i IH2 [of i] prev show ?thesis
          by simp
      qed
    qed
    then show ?thesis
      unfolding last using other IH1 True by auto
  qed
qed

lemma fold_key_step_below:
  "0 < Nk \<Longrightarrow> 4 * n \<le> length rk \<Longrightarrow> k < 4 * Nk \<Longrightarrow> fold (key_step Nk) [Nk..<n] rk ! k = rk ! k"
  by (induction n) (auto simp: key_step_nth)

text \<open>
  The schedule as the standard writes it: a list of words, the newest first, each made from the
  word \<open>Nk\<close> places back and the previous one.
\<close>

definition schedule_word :: "nat \<Rightarrow> nat \<Rightarrow> u8 list list \<Rightarrow> u8 list list" where
  "schedule_word Nk i ws = xor_bytes (ws ! (Nk - 1)) (key_temp Nk i (hd ws)) # ws"

definition key_words :: "nat \<Rightarrow> u8 list \<Rightarrow> u8 list list" where
  "key_words Nk key = map (\<lambda>i. take 4 (drop (4 * i) key)) [0..<Nk]"

definition aes_schedule :: "nat \<Rightarrow> u8 list \<Rightarrow> u8 list" where
  "aes_schedule Nk key =
     concat (rev (fold (schedule_word Nk) [Nk..<4 * (Nk + 7)] (rev (key_words Nk key))))"

lemma map_upt_hd: "0 < n \<Longrightarrow> hd (rev (map f [0..<n])) = f (n - 1)"
  by (simp add: hd_rev last_map)

lemma schedule_follows_recurrence:
  assumes Nk: "0 < Nk"
    and rec: "\<And>i. Nk \<le> i \<Longrightarrow> i < n \<Longrightarrow> w i = xor_bytes (w (i - Nk)) (key_temp Nk i (w (i - 1)))"
    and n: "Nk \<le> n"
  shows "fold (schedule_word Nk) [Nk..<n] (rev (map w [0..<Nk])) = rev (map w [0..<n])"
  using n rec
proof (induction n)
  case 0
  with Nk show ?case
    by simp
next
  case (Suc n)
  show ?case
  proof (cases "Nk \<le> n")
    case False
    with Suc.prems have "Nk = Suc n"
      by simp
    then show ?thesis
      by simp
  next
    case True
    then have IH: "fold (schedule_word Nk) [Nk..<n] (rev (map w [0..<Nk])) = rev (map w [0..<n])"
      using Suc by simp
    have "rev (map w [0..<n]) ! (Nk - 1) = w (n - Nk)"
      using Nk True by (simp add: rev_nth)
    moreover have "hd (rev (map w [0..<n])) = w (n - 1)"
      using Nk True by (intro map_upt_hd) simp
    ultimately have "schedule_word Nk n (rev (map w [0..<n])) = w n # rev (map w [0..<n])"
      using Suc.prems(2) [of n] True by (simp add: schedule_word_def)
    with True show ?thesis
      by (simp add: IH)
  qed
qed

lemma concat_words: "4 * n \<le> length rk \<Longrightarrow> concat (map (rk_word rk) [0..<n]) = take (4 * n) rk"
proof (induction n)
  case (Suc n)
  have "take (4 * n + 4) rk = take (4 * n) rk @ take 4 (drop (4 * n) rk)"
    by (rule take_add)
  with Suc show ?case
    by (simp add: rk_word_def add.commute)
qed simp

lemma fold_key_step_beyond:
  "0 < Nk \<Longrightarrow> 4 * n \<le> length rk \<Longrightarrow> 4 * n \<le> k \<Longrightarrow> fold (key_step Nk) [Nk..<n] rk ! k = rk ! k"
  by (induction n) (auto simp: key_step_nth)

lemma key_expansion_eq:
  assumes Nk: "0 < Nk" and key: "length key = 4 * Nk" and total: "length (key @ rest) = 240"
    and n: "n = 4 * (Nk + 7)" "4 * n \<le> 240"
  shows "fold (key_step Nk) [Nk..<n] (key @ rest) = aes_schedule Nk key @ drop (4 * n) (key @ rest)"
proof -
  define rk where "rk = fold (key_step Nk) [Nk..<n] (key @ rest)"
  have len: "length rk = 240"
    using total by (simp add: rk_def)
  have words: "m < Nk \<Longrightarrow> rk_word rk m = rk_word (key @ rest) m"
    "Nk \<le> m \<Longrightarrow> m < n \<Longrightarrow> rk_word rk m = xor_bytes (rk_word rk (m - Nk)) (key_temp Nk m (rk_word rk (m - 1)))"
    for m
    using key_schedule_words [of Nk n "key @ rest"] Nk n total unfolding rk_def by auto
  have "rk_word (key @ rest) m = take 4 (drop (4 * m) key)" if "m < Nk" for m
    using that key by (simp add: rk_word_def)
  then have first: "map (rk_word rk) [0..<Nk] = key_words Nk key"
    using words(1) by (simp add: key_words_def)
  have "fold (schedule_word Nk) [Nk..<n] (rev (map (rk_word rk) [0..<Nk])) = rev (map (rk_word rk) [0..<n])"
    using Nk words(2) n(1) by (intro schedule_follows_recurrence) simp_all
  then have "aes_schedule Nk key = take (4 * n) rk"
    using n(2) len unfolding aes_schedule_def first n(1) [symmetric] by (simp add: concat_words)
  moreover have "drop (4 * n) rk = drop (4 * n) (key @ rest)"
    using Nk n(2) total len unfolding rk_def
    by (intro nth_equalityI) (simp_all add: fold_key_step_beyond del: drop_append)
  ultimately show ?thesis
    unfolding rk_def [symmetric] by (metis append_take_drop_id)
qed

lemma setkey_schedule:
  assumes "n = 16 \<or> n = 24 \<or> n = 32" "length key = n" "length (round_keys ctx) = 240"
  shows "simple_aes_setkey_enc ctx key n =
     (0, \<lparr>round_keys = aes_schedule (n div 4) key @ drop (4 * n + 112) (round_keys ctx),
         rounds = of_nat (n div 4 + 6)\<rparr>)"
proof -
  have "fold (key_step (n div 4)) [n div 4..<4 * (n div 4 + 7)] (key @ drop n (round_keys ctx)) =
      aes_schedule (n div 4) key @ drop (4 * (4 * (n div 4 + 7))) (key @ drop n (round_keys ctx))"
    using assms by (intro key_expansion_eq) auto
  then show ?thesis
    using assms by (auto simp: simple_aes_setkey_enc_def Let_def)
qed

section \<open>The standard's key expansion and S-box\<close>

text \<open>
  The recurrence of FIPS-197, with the round constants as powers of \<open>x\<close>, and its S-box: the inverse in
  the field followed by an affine map over the bits.
\<close>

fun fips_rcon :: "nat \<Rightarrow> u8" where
  "fips_rcon j = (if j = 0 then 0 else if j = 1 then 1 else xtime (fips_rcon (j - 1)))"

declare fips_rcon.simps [simp del]

definition fips_word :: "nat \<Rightarrow> nat \<Rightarrow> u8 list list \<Rightarrow> u8 list list" where
  "fips_word Nk i ws =
     (let w = hd ws; S = (\<lambda>k. sbox ! unat (w ! k));
          temp = (if i mod Nk = 0 then [S 1 XOR fips_rcon (i div Nk), S 2, S 3, S 0]
                  else if Nk = 8 \<and> i mod Nk = 4 then [S 0, S 1, S 2, S 3] else w)
      in xor_bytes (ws ! (Nk - 1)) temp # ws)"

definition fips_schedule :: "nat \<Rightarrow> u8 list \<Rightarrow> u8 list" where
  "fips_schedule Nk key = concat (rev (fold (fips_word Nk) [Nk..<4 * (Nk + 7)] (rev (key_words Nk key))))"

lemma Rcon_powers: "j < 11 \<Longrightarrow> Rcon ! j = fips_rcon j"
proof -
  assume "j < 11"
  then have "j \<in> {0, 1, 2, 3, 4, 5, 6, 7, 8, 9, 10}"
    by simp presburger
  then show ?thesis
    by (elim insertE; simp add: Rcon_def xtime_def fips_rcon.simps)
qed

lemma schedule_word_standard:
  assumes "Nk = 4 \<or> Nk = 6 \<or> Nk = 8" "i < 4 * (Nk + 7)"
  shows "schedule_word Nk i ws = fips_word Nk i ws"
proof -
  have "i div Nk < 11"
    using assms by auto
  then show ?thesis
    using assms(1) Rcon_powers [of "i div Nk"]
    by (auto simp: schedule_word_def fips_word_def key_temp_def sub_word_def rot_word_def Let_def)
qed

lemma aes_schedule_standard:
  assumes "Nk = 4 \<or> Nk = 6 \<or> Nk = 8"
  shows "aes_schedule Nk key = fips_schedule Nk key"
proof -
  have "fold (schedule_word Nk) [Nk..<4 * (Nk + 7)] ws = fold (fips_word Nk) [Nk..<4 * (Nk + 7)] ws" for ws
    by (rule fold_cong) (auto intro!: ext schedule_word_standard [OF assms])
  then show ?thesis
    by (simp add: aes_schedule_def fips_schedule_def)
qed

definition rot8 :: "nat \<Rightarrow> u8 \<Rightarrow> u8" where
  "rot8 k b = push_bit k b OR drop_bit (8 - k) b"

definition fips_affine :: "u8 \<Rightarrow> u8" where
  "fips_affine b = b XOR rot8 1 b XOR rot8 2 b XOR rot8 3 b XOR rot8 4 b XOR 0x63"

definition inverses :: "u8 list" where
  \<comment> \<open>the inverse of each byte, 0 for 0\<close>
  "inverses = [
     0, 1, 141, 246, 203, 82, 123, 209, 232, 79, 41, 192, 176, 225, 229, 199,
     116, 180, 170, 75, 153, 43, 96, 95, 88, 63, 253, 204, 255, 64, 238, 178,
     58, 110, 90, 241, 85, 77, 168, 201, 193, 10, 152, 21, 48, 68, 162, 194,
     44, 69, 146, 108, 243, 57, 102, 66, 242, 53, 32, 111, 119, 187, 89, 25,
     29, 254, 55, 103, 45, 49, 245, 105, 167, 100, 171, 19, 84, 37, 233, 9,
     237, 92, 5, 202, 76, 36, 135, 191, 24, 62, 34, 240, 81, 236, 97, 23,
     22, 94, 175, 211, 73, 166, 54, 67, 244, 71, 145, 223, 51, 147, 33, 59,
     121, 183, 151, 133, 16, 181, 186, 60, 182, 112, 208, 6, 161, 250, 129, 130,
     131, 126, 127, 128, 150, 115, 190, 86, 155, 158, 149, 217, 247, 2, 185, 164,
     222, 106, 50, 109, 216, 138, 132, 114, 42, 20, 159, 136, 249, 220, 137, 154,
     251, 124, 46, 195, 143, 184, 101, 72, 38, 200, 18, 74, 206, 231, 210, 98,
     12, 224, 31, 239, 17, 117, 120, 113, 165, 142, 118, 61, 189, 188, 134, 87,
     11, 40, 47, 163, 218, 212, 228, 15, 169, 39, 83, 4, 27, 252, 172, 230,
     122, 7, 174, 99, 197, 219, 226, 234, 148, 139, 196, 213, 157, 248, 144, 107,
     177, 13, 214, 235, 198, 14, 207, 173, 8, 78, 215, 227, 93, 80, 30, 179,
     91, 35, 56, 52, 104, 70, 3, 140, 221, 156, 125, 160, 205, 26, 65, 28]"

lemma sbox_affine: "sbox = map fips_affine inverses"
  by (simp add: inverses_def sbox_def sbox_rows_def fips_affine_def rot8_def)

definition nonzero_bytes :: "u8 list" where
  "nonzero_bytes =
     [1, 2, 3, 4, 5, 6, 7, 8, 9, 10, 11, 12, 13, 14, 15, 16, 17, 18, 19, 20, 21, 22, 23, 24,
      25, 26, 27, 28, 29, 30, 31, 32, 33, 34, 35, 36, 37, 38, 39, 40, 41, 42, 43, 44, 45, 46, 47, 48,
      49, 50, 51, 52, 53, 54, 55, 56, 57, 58, 59, 60, 61, 62, 63, 64, 65, 66, 67, 68, 69, 70, 71, 72,
      73, 74, 75, 76, 77, 78, 79, 80, 81, 82, 83, 84, 85, 86, 87, 88, 89, 90, 91, 92, 93, 94, 95, 96,
      97, 98, 99, 100, 101, 102, 103, 104, 105, 106, 107, 108, 109, 110, 111, 112, 113, 114, 115, 116, 117, 118, 119, 120,
      121, 122, 123, 124, 125, 126, 127, 128, 129, 130, 131, 132, 133, 134, 135, 136, 137, 138, 139, 140, 141, 142, 143, 144,
      145, 146, 147, 148, 149, 150, 151, 152, 153, 154, 155, 156, 157, 158, 159, 160, 161, 162, 163, 164, 165, 166, 167, 168,
      169, 170, 171, 172, 173, 174, 175, 176, 177, 178, 179, 180, 181, 182, 183, 184, 185, 186, 187, 188, 189, 190, 191, 192,
      193, 194, 195, 196, 197, 198, 199, 200, 201, 202, 203, 204, 205, 206, 207, 208, 209, 210, 211, 212, 213, 214, 215, 216,
      217, 218, 219, 220, 221, 222, 223, 224, 225, 226, 227, 228, 229, 230, 231, 232, 233, 234, 235, 236, 237, 238, 239, 240,
      241, 242, 243, 244, 245, 246, 247, 248, 249, 250, 251, 252, 253, 254, 255]"

lemma nonzero_bytes: "nonzero_bytes = map word_of_nat [1..<256]"
proof -
  have "[1..<256] = 1 # [2..<256 :: nat]"
    using upt_conv_Cons [of 1 256] by (simp add: numeral_2_eq_2)
  then show ?thesis
    by (simp only: list.map) (simp add: nonzero_bytes_def)
qed

lemma inverses_table: "list_all2 (\<lambda>b c. gf_mul b c = 1) nonzero_bytes (tl inverses)"
  by (simp add: nonzero_bytes_def inverses_def gf_mul_def gf_mul_loop.simps xtime_def)

lemma inverses_correct:
  fixes b :: u8
  assumes "b \<noteq> 0"
  shows "gf_mul b (inverses ! unat b) = 1"
proof -
  have "unat b \<noteq> 0"
    using assms by (simp add: unat_eq_0)
  then have k: "unat b - 1 < 255" "0 < unat b"
    using unat_u8_less [of b] by linarith+
  moreover have "length inverses = 256"
    by (simp add: inverses_def)
  ultimately have "gf_mul (word_of_nat (1 + (unat b - 1))) (tl inverses ! (unat b - 1)) = 1"
    using list_all2_nthD [OF inverses_table [unfolded nonzero_bytes], of "unat b - 1"] by simp
  moreover have "tl inverses ! (unat b - 1) = inverses ! unat b"
    using k \<open>length inverses = 256\<close> by (simp add: nth_tl)
  ultimately show ?thesis
    using k by simp
qed

section \<open>The standard's cipher\<close>

text \<open>
  The cipher as FIPS-197 writes it, on a state of bytes by row and column: the substitution through the
  field inverse and the affine map, the rotation of the rows, the multiplication of a column by
  \<open>3 x^3 + x^2 + x + 2\<close> modulo \<open>x^4 + 1\<close>, and the addition of the words of the key schedule.
\<close>

type_synonym fips_state = "nat \<Rightarrow> nat \<Rightarrow> u8"

definition fips_sub_bytes :: "fips_state \<Rightarrow> fips_state" where
  "fips_sub_bytes S r c = fips_affine (inverses ! unat (S r c))"

definition fips_shift_rows :: "fips_state \<Rightarrow> fips_state" where
  "fips_shift_rows S r c = S r ((c + r) mod 4)"

definition fips_mix_columns :: "fips_state \<Rightarrow> fips_state" where
  "fips_mix_columns S r c = fold (\<lambda>k sum. sum XOR gf_mul (S k c) ([2, 1, 1, 3] ! ((r + 4 - k) mod 4))) [0..<4] 0"

definition fips_add_round_key :: "u8 list \<Rightarrow> nat \<Rightarrow> fips_state \<Rightarrow> fips_state" where
  "fips_add_round_key w round S r c = S r c XOR w ! (16 * round + 4 * c + r)"

definition fips_round :: "u8 list \<Rightarrow> nat \<Rightarrow> fips_state \<Rightarrow> fips_state" where
  "fips_round w round S = fips_add_round_key w round (fips_mix_columns (fips_shift_rows (fips_sub_bytes S)))"

definition fips_cipher :: "nat \<Rightarrow> u8 list \<Rightarrow> u8 list \<Rightarrow> u8 list" where
  "fips_cipher Nr w input =
     (let S = fips_add_round_key w 0 (\<lambda>r c. input ! (4 * c + r));
          S = fold (fips_round w) [1..<Nr] S;
          S = fips_add_round_key w Nr (fips_shift_rows (fips_sub_bytes S))
      in map (\<lambda>i. S (i mod 4) (i div 4)) [0..<16])"

text \<open>The state array of the code, read column by column.\<close>

definition state_bytes :: "fips_state \<Rightarrow> u8 list" where
  "state_bytes S = map (\<lambda>i. S (i mod 4) (i div 4)) [0..<16]"

lemma upt_0_16: "[0..<16] = [0, 1, 2, 3, 4, 5, 6, 7, 8, 9, 10, 11, 12, 13, 14, 15]"
  by (simp add: upt_rec)

lemma state_bytes_nth: "i < 16 \<Longrightarrow> state_bytes S ! i = S (i mod 4) (i div 4)"
  by (simp add: state_bytes_def)

lemma sub_bytes_fips: "sub_bytes (state_bytes S) = state_bytes (fips_sub_bytes S)"
proof -
  have "length inverses = 256"
    by (simp add: inverses_def)
  then show ?thesis
    by (simp add: sub_bytes_def state_bytes_def fips_sub_bytes_def sbox_affine)
qed

lemma shift_rows_fips: "shift_rows (state_bytes S) = state_bytes (fips_shift_rows S)"
  by (simp add: shift_rows_def state_bytes_nth) (simp add: state_bytes_def fips_shift_rows_def upt_0_16 flip: numeral_2_eq_2)

lemma mix_columns_fips: "mix_columns (state_bytes S) = state_bytes (fips_mix_columns S)"
  by (simp add: mix_columns_def mix_column_def state_bytes_nth upt_0_4 Let_def)
    (simp add: state_bytes_def fips_mix_columns_def upt_0_16 upt_0_4 xor.assoc flip: numeral_2_eq_2)

text \<open>The bytes of the context that the rounds read are those of a schedule \<open>w\<close>.\<close>

definition schedule_in :: "u8 list \<Rightarrow> nat \<Rightarrow> simple_aes_ctx \<Rightarrow> bool" where
  "schedule_in w Nr ctx \<longleftrightarrow> 16 * Nr + 16 \<le> length (round_keys ctx) \<and> (\<forall>j < 16 * Nr + 16. round_keys ctx ! j = w ! j)"

lemma add_round_key_fips:
  assumes "schedule_in w Nr ctx" "round \<le> Nr"
  shows "add_round_key (state_bytes S) (drop (16 * round) (round_keys ctx)) = state_bytes (fips_add_round_key w round S)"
proof -
  have byte: "16 * round + 4 * (i div 4) + i mod 4 = 16 * round + i" for i
    by simp
  have "drop (16 * round) (round_keys ctx) ! i = w ! (16 * round + i)" if "i < 16" for i
    using assms that by (simp add: schedule_in_def)
  then show ?thesis
    by (simp add: add_round_key_def state_bytes_def fips_add_round_key_def byte)
qed

lemma round_fips:
  assumes "schedule_in w Nr ctx" "i \<le> Nr"
  shows "aes_round ctx i (state_bytes S) = state_bytes (fips_round w i S)"
  using add_round_key_fips [OF assms] by (simp add: aes_round_def fips_round_def sub_bytes_fips shift_rows_fips mix_columns_fips)

lemma rounds_fips:
  assumes "schedule_in w Nr ctx" "\<forall>i \<in> set is. i \<le> Nr"
  shows "fold (aes_round ctx) is (state_bytes S) = state_bytes (fold (fips_round w) is S)"
  using assms(2) by (induction "is" arbitrary: S) (simp_all add: round_fips [OF assms(1)])

lemma encrypt_block_fips:
  assumes w: "schedule_in w (unat (rounds ctx)) ctx" and len: "length input = 16"
  shows "simple_aes_encrypt_block ctx input = fips_cipher (unat (rounds ctx)) w input"
proof -
  let ?S = "\<lambda>r c. input ! (4 * c + r)"
  let ?T = "fold (fips_round w) [1..<unat (rounds ctx)] (fips_add_round_key w 0 ?S)"
  have input: "input = state_bytes ?S"
    using len by (intro nth_equalityI) (simp_all add: state_bytes_def)
  then have "add_round_key input (round_keys ctx) = state_bytes (fips_add_round_key w 0 ?S)"
    using add_round_key_fips [OF w, of 0 ?S] by simp
  moreover have "fold (aes_round ctx) [1..<unat (rounds ctx)] (state_bytes (fips_add_round_key w 0 ?S)) = state_bytes ?T"
    by (rule rounds_fips [OF w]) auto
  moreover have "add_round_key (shift_rows (sub_bytes (state_bytes ?T))) (drop (16 * unat (rounds ctx)) (round_keys ctx)) =
      state_bytes (fips_add_round_key w (unat (rounds ctx)) (fips_shift_rows (fips_sub_bytes ?T)))"
    by (simp only: sub_bytes_fips shift_rows_fips add_round_key_fips [OF w order.refl])
  ultimately show ?thesis
    using len by (simp only: simple_aes_encrypt_block_def fips_cipher_def Let_def BLOCK_BYTES take_all order.refl
        flip: state_bytes_def)
qed

lemma setkey_in:
  assumes "key_len = 16 \<or> key_len = 24 \<or> key_len = 32" "length key = key_len" "length (round_keys ctx) = 240"
  shows "schedule_in (fips_schedule (key_len div 4) key) (key_len div 4 + 6) (snd (simple_aes_setkey_enc ctx key key_len))"
    "rounds (snd (simple_aes_setkey_enc ctx key key_len)) = of_nat (key_len div 4 + 6)"
proof -
  let ?rk = "round_keys (snd (simple_aes_setkey_enc ctx key key_len))"
  have 1: "?rk = fips_schedule (key_len div 4) key @ drop (4 * key_len + 112) (round_keys ctx)"
    "rounds (snd (simple_aes_setkey_enc ctx key key_len)) = of_nat (key_len div 4 + 6)"
    using setkey_schedule [OF assms] aes_schedule_standard [of "key_len div 4" key] assms(1) by auto
  have "length ?rk = 240"
    using assms by (auto simp: simple_aes_setkey_enc_def Let_def)
  then have "length (fips_schedule (key_len div 4) key) = 4 * key_len + 112" "length ?rk = 240"
    using assms(1,3) 1(1) by auto
  then show "schedule_in (fips_schedule (key_len div 4) key) (key_len div 4 + 6) (snd (simple_aes_setkey_enc ctx key key_len))"
    using assms(1) by (auto simp: schedule_in_def 1(1) nth_append)
  show "rounds (snd (simple_aes_setkey_enc ctx key key_len)) = of_nat (key_len div 4 + 6)"
    by (rule 1(2))
qed

section \<open>The cipher as a block cipher\<close>

interpretation aes: block_cipher "simple_aes_encrypt_block ctx" for ctx
  by unfold_locales (auto intro: encrypt_block_inj)

section \<open>Properties\<close>

definition cleared_ctx :: simple_aes_ctx where
  "cleared_ctx = \<lparr>round_keys = replicate 240 0, rounds = 0\<rparr>"


text \<open>
  Claim C25. A block encryption never maps two different blocks to the same ciphertext, whatever the
  round keys in the context are: \<open>sub_bytes\<close>, \<open>shift_rows\<close>, \<open>mix_columns\<close> and \<open>add_round_key\<close> can all be
  undone, so telemetry and persisted blobs lose no information under the cipher.
\<close>

theorem simple_aes_injective:
  assumes "length a = SIMPLE_AES_BLOCK_BYTES" "length b = SIMPLE_AES_BLOCK_BYTES" "a \<noteq> b"
  shows "simple_aes_encrypt_block ctx a \<noteq> simple_aes_encrypt_block ctx b"
  using assms aes.enc_inj [of a b ctx] by auto

theorem simple_aes_injective_witness:
  "simple_aes_encrypt_block \<lparr>round_keys = replicate 240 9, rounds = 14\<rparr> (replicate 16 0) \<noteq>
   simple_aes_encrypt_block \<lparr>round_keys = replicate 240 9, rounds = 14\<rparr> (replicate 16 1)"
  by (rule simple_aes_injective) simp_all

text \<open>
  Claim C7. Key expansion for the three key sizes: the call succeeds, sets the number of rounds to
  \<open>key_len / 4 + 6\<close>, stays inside the 240-byte buffer, and fills its first \<open>16 (rounds + 1)\<close> bytes with
  exactly the word recurrence of the AES standard started from the key, with the round constants
  computed as powers of \<open>x\<close> instead of read from the table, leaving the rest of the buffer as it was.
\<close>

theorem setkey_is_standard_schedule:
  assumes "key_len = 16 \<or> key_len = 24 \<or> key_len = 32" "length key = key_len"
    and "length (round_keys ctx) = SIMPLE_AES_BLOCK_BYTES * (SIMPLE_AES_MAX_ROUNDS + 1)"
  shows "simple_aes_setkey_enc ctx key key_len =
     (0, \<lparr>round_keys = fips_schedule (key_len div 4) key
            @ drop (16 * (key_len div 4 + 7)) (round_keys ctx),
         rounds = of_nat (key_len div 4 + 6)\<rparr>)"
proof -
  have "16 * (key_len div 4 + 7) = 4 * key_len + 112"
    using assms(1) by auto
  moreover have "length (round_keys ctx) = 240"
    using assms(3) by (simp add: SIMPLE_AES_MAX_ROUNDS_def)
  ultimately show ?thesis
    using setkey_schedule [OF assms(1,2)] aes_schedule_standard [of "key_len div 4" key] assms(1) by auto
qed

theorem setkey_is_standard_schedule_witness:
  "simple_aes_setkey_enc cleared_ctx (replicate 32 7) 32 =
     (0, \<lparr>round_keys = fips_schedule 8 (replicate 32 7), rounds = 14\<rparr>)"
  using setkey_is_standard_schedule [of 32 "replicate 32 7" cleared_ctx]
  by (simp add: cleared_ctx_def SIMPLE_AES_MAX_ROUNDS_def)

text \<open>
  Claim C8. The table of the source is the S-box of the standard: every entry is the affine image of
  the multiplicative inverse of its index under the code's own \<open>gf_mul\<close>, and of 0 for the index 0.
\<close>

theorem sbox_is_standard:
  "\<exists>c. (if b = 0 then c = 0 else gf_mul b c = 1) \<and> sbox ! unat b = fips_affine c"
proof (intro exI conjI)
  have "length inverses = 256"
    by (simp add: inverses_def)
  then show "sbox ! unat b = fips_affine (inverses ! unat b)"
    by (simp add: sbox_affine)
  show "if b = 0 then inverses ! unat b = 0 else gf_mul b (inverses ! unat b) = 1"
    using inverses_correct [of b] by (simp add: inverses_def)
qed

text \<open>
  Claim C26. The whole cipher is the AES of the standard: after setting up a key of 16, 24 or 32 bytes
  in any context with its 240-byte buffer, encrypting a 16-byte block is the FIPS-197 cipher with 10, 12 or 14 rounds under the
  standard's key schedule (the one of C7). On the right the state is a function of row and column, the
  substitution is the affine image of the field inverse, the rows are rotated by index arithmetic, and
  a column is multiplied by a polynomial modulo \<open>x^4 + 1\<close>, in place of the index lists of the code.
\<close>

theorem encrypt_is_fips197_cipher:
  assumes "key_len = 16 \<or> key_len = 24 \<or> key_len = 32" "length key = key_len" "length input = SIMPLE_AES_BLOCK_BYTES"
    and "length (round_keys ctx) = SIMPLE_AES_BLOCK_BYTES * (SIMPLE_AES_MAX_ROUNDS + 1)"
  shows "simple_aes_encrypt_block (snd (simple_aes_setkey_enc ctx key key_len)) input =
     fips_cipher (key_len div 4 + 6) (fips_schedule (key_len div 4) key) input"
proof -
  have "length (round_keys ctx) = 240"
    using assms(4) by (simp add: SIMPLE_AES_MAX_ROUNDS_def)
  note key = setkey_in [OF assms(1,2) this]
  have "unat (rounds (snd (simple_aes_setkey_enc ctx key key_len))) = key_len div 4 + 6"
    using assms(1) by (auto simp: key(2))
  then show ?thesis
    using encrypt_block_fips [of _ "snd (simple_aes_setkey_enc ctx key key_len)"] key(1) assms(3) by simp
qed

theorem encrypt_is_fips197_cipher_witness:
  "simple_aes_encrypt_block (snd (simple_aes_setkey_enc cleared_ctx (replicate 24 7) 24)) (replicate 16 1) =
     fips_cipher 12 (fips_schedule 6 (replicate 24 7)) (replicate 16 1)"
  using encrypt_is_fips197_cipher [of 24 "replicate 24 7" "replicate 16 1" cleared_ctx]
  by (simp add: cleared_ctx_def SIMPLE_AES_MAX_ROUNDS_def)

section \<open>Known answers\<close>

lemma sbox_row:
  "sbox_rows ! 0 = [99, 124, 119, 123, 242, 107, 111, 197, 48, 1, 103, 43, 254, 215, 171, 118]"
  "sbox_rows ! Suc 0 = [202, 130, 201, 125, 250, 89, 71, 240, 173, 212, 162, 175, 156, 164, 114, 192]"
  "sbox_rows ! 2 = [183, 253, 147, 38, 54, 63, 247, 204, 52, 165, 229, 241, 113, 216, 49, 21]"
  "sbox_rows ! 3 = [4, 199, 35, 195, 24, 150, 5, 154, 7, 18, 128, 226, 235, 39, 178, 117]"
  "sbox_rows ! 4 = [9, 131, 44, 26, 27, 110, 90, 160, 82, 59, 214, 179, 41, 227, 47, 132]"
  "sbox_rows ! 5 = [83, 209, 0, 237, 32, 252, 177, 91, 106, 203, 190, 57, 74, 76, 88, 207]"
  "sbox_rows ! 6 = [208, 239, 170, 251, 67, 77, 51, 133, 69, 249, 2, 127, 80, 60, 159, 168]"
  "sbox_rows ! 7 = [81, 163, 64, 143, 146, 157, 56, 245, 188, 182, 218, 33, 16, 255, 243, 210]"
  "sbox_rows ! 8 = [205, 12, 19, 236, 95, 151, 68, 23, 196, 167, 126, 61, 100, 93, 25, 115]"
  "sbox_rows ! 9 = [96, 129, 79, 220, 34, 42, 144, 136, 70, 238, 184, 20, 222, 94, 11, 219]"
  "sbox_rows ! 10 = [224, 50, 58, 10, 73, 6, 36, 92, 194, 211, 172, 98, 145, 149, 228, 121]"
  "sbox_rows ! 11 = [231, 200, 55, 109, 141, 213, 78, 169, 108, 86, 244, 234, 101, 122, 174, 8]"
  "sbox_rows ! 12 = [186, 120, 37, 46, 28, 166, 180, 198, 232, 221, 116, 31, 75, 189, 139, 138]"
  "sbox_rows ! 13 = [112, 62, 181, 102, 72, 3, 246, 14, 97, 53, 87, 185, 134, 193, 29, 158]"
  "sbox_rows ! 14 = [225, 248, 152, 17, 105, 217, 142, 148, 155, 30, 135, 233, 206, 85, 40, 223]"
  "sbox_rows ! 15 = [140, 161, 137, 13, 191, 230, 66, 104, 65, 153, 45, 15, 176, 84, 187, 22]"
  by (simp_all add: sbox_rows_def)

lemma block_eval:
  "add_round_key [a0, a1, a2, a3, a4, a5, a6, a7, a8, a9, a10, a11, a12, a13, a14, a15] (k0 # k1 # k2 # k3 # k4 # k5 # k6 # k7 # k8 # k9 # k10 # k11 # k12 # k13 # k14 # k15 # ks) =
     [a0 XOR k0, a1 XOR k1, a2 XOR k2, a3 XOR k3, a4 XOR k4, a5 XOR k5, a6 XOR k6, a7 XOR k7, a8 XOR k8, a9 XOR k9, a10 XOR k10, a11 XOR k11, a12 XOR k12, a13 XOR k13, a14 XOR k14, a15 XOR k15]"
  "sub_bytes [a0, a1, a2, a3, a4, a5, a6, a7, a8, a9, a10, a11, a12, a13, a14, a15] = map (\<lambda>b. sbox ! unat b) [a0, a1, a2, a3, a4, a5, a6, a7, a8, a9, a10, a11, a12, a13, a14, a15]"
  "shift_rows [a0, a1, a2, a3, a4, a5, a6, a7, a8, a9, a10, a11, a12, a13, a14, a15] =
     [a0, a5, a10, a15, a4, a9, a14, a3, a8, a13, a2, a7, a12, a1, a6, a11]"
  by (simp_all add: add_round_key_def sub_bytes_def shift_rows_def upt_rec)

lemma mix_eval:
  "mix_columns [a0, a1, a2, a3, a4, a5, a6, a7, a8, a9, a10, a11, a12, a13, a14, a15] =
     [mixed a0 a1 a2 a3, mixed a1 a2 a3 a0, mixed a2 a3 a0 a1, mixed a3 a0 a1 a2,
      mixed a4 a5 a6 a7, mixed a5 a6 a7 a4, mixed a6 a7 a4 a5, mixed a7 a4 a5 a6,
      mixed a8 a9 a10 a11, mixed a9 a10 a11 a8, mixed a10 a11 a8 a9, mixed a11 a8 a9 a10,
      mixed a12 a13 a14 a15, mixed a13 a14 a15 a12, mixed a14 a15 a12 a13, mixed a15 a12 a13 a14]"
  by (simp add: mix_columns_def mix_column_mixed upt_rec)

lemmas schedule_eval = aes_schedule_def schedule_word_def key_words_def xor_bytes_def key_temp_def
  sub_word_def rot_word_def sbox_nth sbox_row Rcon_def Let_def upt_0_4

lemmas encrypt_eval = block_eval mix_eval mixed_def
  sbox_nth sbox_row xtime_def aes_round_def

lemma round_numbers: "[Suc 0..<10] = [1, 2, 3, 4, 5, 6, 7, 8, 9]"
  "[0..<6] = [0, 1, 2, 3, 4, 5]"
  "[0..<8] = [0, 1, 2, 3, 4, 5, 6, 7]"
  "[Suc 0..<12] = [1, 2, 3, 4, 5, 6, 7, 8, 9, 10, 11]"
  "[Suc 0..<14] = [1, 2, 3, 4, 5, 6, 7, 8, 9, 10, 11, 12, 13]"
  by (simp_all add: upt_rec)

lemma setkey_cleared:
  assumes "n = 16 \<or> n = 24 \<or> n = 32" "length key = n"
  shows "snd (simple_aes_setkey_enc cleared_ctx key n) =
     \<lparr>round_keys = aes_schedule (n div 4) key @ replicate (128 - 4 * n) 0, rounds = of_nat (n div 4 + 6)\<rparr>"
proof -
  have "length (round_keys cleared_ctx) = 240"
    by (simp add: cleared_ctx_def)
  then show ?thesis
    using setkey_schedule [OF assms, of cleared_ctx] by (simp add: cleared_ctx_def)
qed

text \<open>
  A check of the definitions themselves: with the keys \<open>00 01 .. 0f\<close>, \<open>00 01 .. 17\<close> and \<open>00 01 .. 1f\<close> the
  plaintext \<open>00 11 .. ff\<close> encrypts to the ciphertexts of the standard's appendix C.
\<close>

lemma known_answer_128:
  "simple_aes_encrypt_block
     (snd (simple_aes_setkey_enc cleared_ctx
        [0, 1, 2, 3, 4, 5, 6, 7, 8, 9, 10, 11, 12, 13, 14, 15] 16))
     [0x00, 0x11, 0x22, 0x33, 0x44, 0x55, 0x66, 0x77, 0x88, 0x99, 0xaa, 0xbb, 0xcc, 0xdd, 0xee, 0xff] =
   [0x69, 0xc4, 0xe0, 0xd8, 0x6a, 0x7b, 0x04, 0x30, 0xd8, 0xcd, 0xb7, 0x80, 0x70, 0xb4, 0xc5, 0x5a]"
  by (simp add: setkey_cleared; simp add: schedule_eval round_numbers;
      unfold simple_aes_encrypt_block_def Let_def; simp add: encrypt_eval round_numbers)

lemma known_answer_192:
  "simple_aes_encrypt_block
     (snd (simple_aes_setkey_enc cleared_ctx
        [0, 1, 2, 3, 4, 5, 6, 7, 8, 9, 10, 11, 12, 13, 14, 15,
         16, 17, 18, 19, 20, 21, 22, 23] 24))
     [0x00, 0x11, 0x22, 0x33, 0x44, 0x55, 0x66, 0x77, 0x88, 0x99, 0xaa, 0xbb, 0xcc, 0xdd, 0xee, 0xff] =
   [0xdd, 0xa9, 0x7c, 0xa4, 0x86, 0x4c, 0xdf, 0xe0, 0x6e, 0xaf, 0x70, 0xa0, 0xec, 0x0d, 0x71, 0x91]"
  by (simp add: setkey_cleared; simp add: schedule_eval round_numbers;
      unfold simple_aes_encrypt_block_def Let_def; simp add: encrypt_eval round_numbers)

lemma known_answer_256:
  "simple_aes_encrypt_block
     (snd (simple_aes_setkey_enc cleared_ctx
        [0, 1, 2, 3, 4, 5, 6, 7, 8, 9, 10, 11, 12, 13, 14, 15,
         16, 17, 18, 19, 20, 21, 22, 23, 24, 25, 26, 27, 28, 29, 30, 31] 32))
     [0x00, 0x11, 0x22, 0x33, 0x44, 0x55, 0x66, 0x77, 0x88, 0x99, 0xaa, 0xbb, 0xcc, 0xdd, 0xee, 0xff] =
   [0x8e, 0xa2, 0xb7, 0xca, 0x51, 0x67, 0x45, 0xbf, 0xea, 0xfc, 0x49, 0x90, 0x4b, 0x49, 0x60, 0x89]"
  by (simp add: setkey_cleared; simp add: schedule_eval round_numbers;
      unfold simple_aes_encrypt_block_def Let_def; simp add: encrypt_eval round_numbers)

end
