(* ===== verification/Curve25519_Field.thy ===== *)
theory Curve25519_Field
  imports Prelude
begin

text \<open>
  \<open>src/curve25519_ref10.c\<close>, first part: the field arithmetic modulo \<open>2^255 - 19\<close> on ten signed
  limbs (\<open>typedef int32_t fe[10]\<close>, radix \<open>2^25.5\<close>). An \<open>fe\<close> is the list of its ten \<open>int32_t\<close> limbs
  and the intermediate \<open>int64_t\<close> values are 64-bit words; additions, multiplications and narrowing
  conversions wrap as the target's two's complement arithmetic does, and \<open>>>\<close> on a signed value is
  the arithmetic shift. The lemmas show that multiplication is exact modulo the prime and free of
  overflow as long as the limbs are at most \<open>2^27\<close> in size, that its result is small enough for one
  more addition or subtraction, and hence that \<open>fe_invert\<close> computes the power \<open>2^255 - 21\<close>.
\<close>

type_synonym fe = "i32 list"

section \<open>The code\<close>

definition fe_0 :: fe where
  "fe_0 = replicate 10 0"

definition fe_1 :: fe where
  "fe_1 = fe_0[0 := 1]"

definition fe_copy :: "fe \<Rightarrow> fe" where
  "fe_copy f = map (\<lambda>i. f ! i) [0..<10]"

definition fe_add :: "fe \<Rightarrow> fe \<Rightarrow> fe" where
  "fe_add f g = map (\<lambda>i. f ! i + g ! i) [0..<10]"

definition fe_sub :: "fe \<Rightarrow> fe \<Rightarrow> fe" where
  "fe_sub f g = map (\<lambda>i. f ! i - g ! i) [0..<10]"

definition fe_mul121666 :: "fe \<Rightarrow> fe" where
  "fe_mul121666 f = map (\<lambda>i. f ! i * 121666) [0..<10]"

text \<open>
  One carry of the reduction chains: \<open>c = (h[i] + (1 << (b - 1))) >> b; h[j] += c * m; h[i] -= c << b\<close>.
  The two chains (on \<open>int64_t\<close> in \<open>fe_mul\<close>, on \<open>int32_t\<close> in \<open>fe_tobytes\<close>) consist of such triples.
\<close>

definition carry :: "nat \<Rightarrow> nat \<Rightarrow> nat \<Rightarrow> 'a::len word \<Rightarrow> 'a word list \<Rightarrow> 'a word list" where
  "carry i j b m h =
     (let c = signed_drop_bit b (h ! i + push_bit (b - 1) 1)
      in h[j := h ! j + c * m, i := h ! i - push_bit b c])"

text \<open>The ten \<open>int64_t\<close> sums of products of \<open>fe_mul\<close>.\<close>

definition fe_mul_products :: "fe \<Rightarrow> fe \<Rightarrow> i64 list" where
  "fe_mul_products f g =
     (let
       f0 = scast (f ! 0); f1 = scast (f ! 1); f2 = scast (f ! 2); f3 = scast (f ! 3); f4 = scast (f ! 4);
       f5 = scast (f ! 5); f6 = scast (f ! 6); f7 = scast (f ! 7); f8 = scast (f ! 8); f9 = scast (f ! 9);
       g0 = scast (g ! 0); g1 = scast (g ! 1); g2 = scast (g ! 2); g3 = scast (g ! 3); g4 = scast (g ! 4);
       g5 = scast (g ! 5); g6 = scast (g ! 6); g7 = scast (g ! 7); g8 = scast (g ! 8); g9 = scast (g ! 9);
       g1_19 = 19 * g1; g2_19 = 19 * g2; g3_19 = 19 * g3; g4_19 = 19 * g4; g5_19 = 19 * g5;
       g6_19 = 19 * g6; g7_19 = 19 * g7; g8_19 = 19 * g8; g9_19 = 19 * g9;
       f1_2 = 2 * f1; f3_2 = 2 * f3; f5_2 = 2 * f5; f7_2 = 2 * f7; f9_2 = 2 * f9;
       h0 = f0 * g0 + f1_2 * g9_19 + f2 * g8_19 + f3_2 * g7_19 + f4 * g6_19 +
            f5_2 * g5_19 + f6 * g4_19 + f7_2 * g3_19 + f8 * g2_19 + f9_2 * g1_19;
       h1 = f0 * g1 + f1 * g0 + f2 * g9_19 + f3 * g8_19 + f4 * g7_19 +
            f5 * g6_19 + f6 * g5_19 + f7 * g4_19 + f8 * g3_19 + f9 * g2_19;
       h2 = f0 * g2 + f1_2 * g1 + f2 * g0 + f3_2 * g9_19 + f4 * g8_19 +
            f5_2 * g7_19 + f6 * g6_19 + f7_2 * g5_19 + f8 * g4_19 + f9_2 * g3_19;
       h3 = f0 * g3 + f1 * g2 + f2 * g1 + f3 * g0 + f4 * g9_19 +
            f5 * g8_19 + f6 * g7_19 + f7 * g6_19 + f8 * g5_19 + f9 * g4_19;
       h4 = f0 * g4 + f1_2 * g3 + f2 * g2 + f3_2 * g1 + f4 * g0 +
            f5_2 * g9_19 + f6 * g8_19 + f7_2 * g7_19 + f8 * g6_19 + f9_2 * g5_19;
       h5 = f0 * g5 + f1 * g4 + f2 * g3 + f3 * g2 + f4 * g1 +
            f5 * g0 + f6 * g9_19 + f7 * g8_19 + f8 * g7_19 + f9 * g6_19;
       h6 = f0 * g6 + f1_2 * g5 + f2 * g4 + f3_2 * g3 + f4 * g2 +
            f5_2 * g1 + f6 * g0 + f7_2 * g9_19 + f8 * g8_19 + f9_2 * g7_19;
       h7 = f0 * g7 + f1 * g6 + f2 * g5 + f3 * g4 + f4 * g3 +
            f5 * g2 + f6 * g1 + f7 * g0 + f8 * g9_19 + f9 * g8_19;
       h8 = f0 * g8 + f1_2 * g7 + f2 * g6 + f3_2 * g5 + f4 * g4 +
            f5_2 * g3 + f6 * g2 + f7_2 * g1 + f8 * g0 + f9_2 * g9_19;
       h9 = f0 * g9 + f1 * g8 + f2 * g7 + f3 * g6 + f4 * g5 +
            f5 * g4 + f6 * g3 + f7 * g2 + f8 * g1 + f9 * g0
      in [h0, h1, h2, h3, h4, h5, h6, h7, h8, h9])"

definition fe_mul_carries :: "i64 list \<Rightarrow> i64 list" where
  "fe_mul_carries h =
     (let
       h = carry 0 1 26 1 h;
       h = carry 4 5 26 1 h;
       h = carry 1 2 25 1 h;
       h = carry 5 6 25 1 h;
       h = carry 2 3 26 1 h;
       h = carry 6 7 26 1 h;
       h = carry 3 4 25 1 h;
       h = carry 7 8 25 1 h;
       h = carry 4 5 26 1 h;
       h = carry 8 9 26 1 h;
       h = carry 9 0 25 19 h;
       h = carry 0 1 26 1 h
      in h)"

definition fe_mul :: "fe \<Rightarrow> fe \<Rightarrow> fe" where
  "fe_mul f g = map ucast (fe_mul_carries (fe_mul_products f g))"

definition fe_sq :: "fe \<Rightarrow> fe" where
  "fe_sq f = fe_mul f f"

definition fe_invert :: "fe \<Rightarrow> fe" where
  "fe_invert z =
     (let t0 = fe_sq z;
          t1 = fe_sq t0;
          t1 = fe_sq t1;
          t1 = fe_mul z t1;
          t0 = fe_mul t0 t1;
          t2 = fe_sq t0;
          t1 = fe_mul t1 t2;
          t2 = fe_sq t1;
          t2 = (fe_sq ^^ 4) t2;
          t1 = fe_mul t2 t1;
          t2 = fe_sq t1;
          t2 = (fe_sq ^^ 9) t2;
          t2 = fe_mul t2 t1;
          t3 = fe_sq t2;
          t3 = (fe_sq ^^ 19) t3;
          t2 = fe_mul t3 t2;
          t2 = fe_sq t2;
          t2 = (fe_sq ^^ 9) t2;
          t1 = fe_mul t2 t1;
          t2 = fe_sq t1;
          t2 = (fe_sq ^^ 49) t2;
          t2 = fe_mul t2 t1;
          t3 = fe_sq t2;
          t3 = (fe_sq ^^ 99) t3;
          t2 = fe_mul t3 t2;
          t2 = fe_sq t2;
          t2 = (fe_sq ^^ 49) t2;
          t1 = fe_mul t2 t1;
          t1 = fe_sq t1;
          t1 = (fe_sq ^^ 4) t1
      in fe_mul t1 t0)"

section \<open>Values and bounds\<close>

text \<open>The number that ten limbs stand for: limb \<open>i\<close> has weight \<open>2^ceil(25.5 i)\<close>.\<close>

definition field_prime :: int where
  "field_prime = 2 ^ 255 - 19"

definition limb_weight :: "nat \<Rightarrow> nat" where
  "limb_weight i = (51 * i + 1) div 2"

definition limbs_value :: "int list \<Rightarrow> int" where
  "limbs_value xs = (\<Sum>i<10. xs ! i * 2 ^ limb_weight i)"

definition fe_value :: "fe \<Rightarrow> int" where
  "fe_value f = limbs_value (map sint f)"

definition limbs_within :: "int \<Rightarrow> 'a::len word list \<Rightarrow> bool" where
  "limbs_within B f \<longleftrightarrow> length f = 10 \<and> (\<forall>x \<in> set f. \<bar>sint x\<bar> \<le> B)"


lemma sint_eqI: "w = word_of_int x \<Longrightarrow> - (2 ^ (LENGTH('a) - 1)) \<le> x \<Longrightarrow> x < 2 ^ (LENGTH('a) - 1) \<Longrightarrow>
    sint (w :: 'a::len word) = x"
  by (simp add: sint_sbintrunc' signed_take_bit_int_eq_self)

lemma limbs_value_update:
  assumes "k < 10" "length xs = 10"
  shows "limbs_value (xs[k := v]) = limbs_value xs + (v - xs ! k) * 2 ^ limb_weight k"
proof -
  have "limbs_value ys = ys ! k * 2 ^ limb_weight k + (\<Sum>i\<in>{..<10} - {k}. ys ! i * 2 ^ limb_weight i)" for ys
    unfolding limbs_value_def using assms(1) by (intro sum.remove) simp_all
  moreover have "(\<Sum>i\<in>{..<10} - {k}. xs[k := v] ! i * 2 ^ limb_weight i)
      = (\<Sum>i\<in>{..<10} - {k}. xs ! i * 2 ^ limb_weight i)"
    by (intro sum.cong) auto
  ultimately show ?thesis
    using assms by (simp add: algebra_simps)
qed

text \<open>
  The limbs stay below the bounds \<open>B\<close>, limb by limb, and stand for the residue class of \<open>n\<close>: the
  invariant of the carry chain.
\<close>

definition represents :: "int \<Rightarrow> int list \<Rightarrow> 'a::len word list \<Rightarrow> bool" where
  "represents n B h \<longleftrightarrow> length B = 10 \<and> length h = 10 \<and> (\<forall>i<10. \<bar>sint (h ! i)\<bar> \<le> B ! i) \<and>
     limbs_value (map sint h) mod field_prime = n mod field_prime"

lemma div_bounds: "0 < (d :: int) \<Longrightarrow> d * (y div d) \<le> y \<and> y < d * (y div d) + d"
  using pos_mod_bound [of d y] pos_mod_sign [of d y] mult_div_mod_eq [of d y] by linarith

lemma round_div_bounds:
  fixes x :: int
  assumes "\<bar>x\<bar> \<le> B" "0 < b"
  defines "c \<equiv> (x + 2 ^ (b - 1)) div 2 ^ b"
  shows "\<bar>c\<bar> \<le> (B + 2 ^ (b - 1)) div 2 ^ b + 1" "\<bar>x - c * 2 ^ b\<bar> \<le> 2 ^ (b - 1)"
proof -
  have b: "(2::int) ^ b = 2 * 2 ^ (b - 1)"
    using assms(2) by (cases b) simp_all
  define P :: int where "P = 2 ^ (b - 1)"
  have P: "0 < P" and bP: "(2::int) ^ b = 2 * P"
    by (simp_all add: P_def b)
  have c_eq: "c = (x + P) div (2 * P)"
    unfolding c_def bP P_def ..
  have c: "2 * P * c \<le> x + P" "x + P < 2 * P * c + 2 * P"
    using div_bounds [of "2 * P" "x + P"] P unfolding c_eq by simp_all
  then show "\<bar>x - c * 2 ^ b\<bar> \<le> 2 ^ (b - 1)"
    unfolding bP P_def [symmetric] by (simp add: abs_le_iff algebra_simps)
  define q where "q = (B + P) div (2 * P)"
  have q: "2 * P * q \<le> B + P" "B + P < 2 * P * q + 2 * P"
    using div_bounds [of "2 * P" "B + P"] P unfolding q_def by simp_all
  have "2 * P * c < 2 * P * (q + 1)"
    using c q assms(1) by (simp add: algebra_simps)
  then have "c < q + 1"
    using P by (simp add: mult_less_cancel_left_pos)
  moreover have "2 * P * (- q - 2) < 2 * P * c"
    using c q assms(1) by (simp add: algebra_simps abs_le_iff)
  then have "- q - 2 < c"
    using P by (simp add: mult_less_cancel_left_pos)
  ultimately show "\<bar>c\<bar> \<le> (B + 2 ^ (b - 1)) div 2 ^ b + 1"
    unfolding bP P_def [symmetric] q_def [symmetric] by simp
qed


lemma sint_carry:
  fixes h :: "'a::len word list"
  assumes B: "\<bar>sint (h ! i)\<bar> \<le> B" "B + 2 ^ (b - 1) < 2 ^ (LENGTH('a) - 1)"
    and b: "0 < b" "b < LENGTH('a)"
  defines "c \<equiv> signed_drop_bit b (h ! i + push_bit (b - 1) 1)"
  shows "sint c = (sint (h ! i) + 2 ^ (b - 1)) div 2 ^ b"
    and "sint (h ! i - push_bit b c) = sint (h ! i) - sint c * 2 ^ b"
proof -
  have sum: "h ! i + push_bit (b - 1) 1 = word_of_int (sint (h ! i) + 2 ^ (b - 1))"
    by (simp add: push_bit_eq_mult)
  have "sint (h ! i + push_bit (b - 1) 1) = sint (h ! i) + 2 ^ (b - 1)"
    by (rule sint_eqI [OF sum]) (use B zero_le_power [of "2::int" "b - 1"] in linarith)+
  then show c: "sint c = (sint (h ! i) + 2 ^ (b - 1)) div 2 ^ b"
    by (simp add: c_def sint_signed_drop_bit_eq drop_bit_eq_div)
  have diff: "h ! i - push_bit b c = word_of_int (sint (h ! i) - sint c * 2 ^ b)"
    by (simp add: push_bit_eq_mult mult.commute)
  have small: "\<bar>sint (h ! i) - sint c * 2 ^ b\<bar> \<le> 2 ^ (b - 1)"
    unfolding c by (rule round_div_bounds) (use assms in auto)
  have range: "(2::int) ^ (b - 1) < 2 ^ (LENGTH('a) - 1)"
    using b by (intro power_strict_increasing) auto
  show "sint (h ! i - push_bit b c) = sint (h ! i) - sint c * 2 ^ b"
    by (rule sint_eqI [OF diff]) (use small range in linarith)+
qed

text \<open>
  One carry keeps the invariant, when the two bounds it needs leave the word's range alone and the
  weights of the two limbs agree modulo the prime.
\<close>

lemma carry_represents:
  fixes h :: "'a::len word list"
  assumes h: "represents n B h"
    and ij: "i < 10" "j < 10" "i \<noteq> j"
    and b: "0 < b" "b < LENGTH('a)"
    and m: "m = word_of_int m'" "0 < m'"
    and room: "B ! i + 2 ^ (b - 1) < 2 ^ (LENGTH('a) - 1)"
      "B ! j + m' * ((B ! i + 2 ^ (b - 1)) div 2 ^ b + 1) < 2 ^ (LENGTH('a) - 1)"
    and weights: "(m' * 2 ^ limb_weight j - 2 ^ b * 2 ^ limb_weight i) mod field_prime = 0"
    and B': "B' = B[j := B ! j + m' * ((B ! i + 2 ^ (b - 1)) div 2 ^ b + 1), i := 2 ^ (b - 1)]"
  shows "represents n B' (carry i j b m h)"
proof -
  define c where "c = signed_drop_bit b (h ! i + push_bit (b - 1) 1)"
  have Bi: "\<bar>sint (h ! i)\<bar> \<le> B ! i" and Bj: "\<bar>sint (h ! j)\<bar> \<le> B ! j" and len: "length h = 10" "length B = 10"
    and val: "limbs_value (map sint h) mod field_prime = n mod field_prime"
    using h ij by (auto simp: represents_def)
  note c = sint_carry [OF Bi room(1) b, folded c_def]
  note rb = round_div_bounds [OF Bi b(1), folded c(1)]
  have cm: "\<bar>sint c * m'\<bar> \<le> m' * ((B ! i + 2 ^ (b - 1)) div 2 ^ b + 1)"
    using mult_right_mono [OF rb(1), of m'] m(2) by (simp add: abs_mult mult.commute)
  have new_j: "sint (h ! j + c * m) = sint (h ! j) + sint c * m'"
  proof (rule sint_eqI)
    show "h ! j + c * m = word_of_int (sint (h ! j) + sint c * m')"
      by (simp add: m(1))
  qed (use cm Bj room(2) in \<open>simp_all add: abs_le_iff\<close>)
  have new_i: "sint (h ! i - push_bit b c) = sint (h ! i) - sint c * 2 ^ b"
    by (rule c(2))
  have new: "map sint (carry i j b m h) =
      (map sint h)[j := sint (h ! j) + sint c * m', i := sint (h ! i) - sint c * 2 ^ b]"
    unfolding carry_def Let_def c_def [symmetric] map_update new_i new_j ..
  have "limbs_value (map sint (carry i j b m h)) = limbs_value (map sint h)
      + sint c * (m' * 2 ^ limb_weight j - 2 ^ b * 2 ^ limb_weight i)"
    unfolding new using ij len by (simp add: limbs_value_update algebra_simps)
  moreover have "(sint c * (m' * 2 ^ limb_weight j - 2 ^ b * 2 ^ limb_weight i)) mod field_prime = 0"
    using weights by (simp add: mod_mult_right_eq [symmetric])
  ultimately have "limbs_value (map sint (carry i j b m h)) mod field_prime = n mod field_prime"
    using val by (metis add.right_neutral mod_add_right_eq)
  moreover have "\<bar>sint (carry i j b m h ! k)\<bar> \<le> B' ! k" if k: "k < 10" for k
  proof -
    have "sint (carry i j b m h ! k) = map sint (carry i j b m h) ! k"
      using k len by (simp add: carry_def Let_def)
    also have "\<bar>\<dots>\<bar> \<le> B' ! k"
      unfolding new B' using ij len k h rb(2) cm Bj
      by (auto simp: nth_list_update represents_def abs_le_iff)
    finally show ?thesis .
  qed
  ultimately show ?thesis
    using len by (simp add: represents_def B' carry_def Let_def)
qed

text \<open>The ten sums over the integers.\<close>

definition int_products :: "(nat \<Rightarrow> int) \<Rightarrow> (nat \<Rightarrow> int) \<Rightarrow> int list" where
  "int_products F G =
     [(F 0 * G 0) + 38 * (F 1 * G 9) + 19 * (F 2 * G 8) + 38 * (F 3 * G 7) + 19 * (F 4 * G 6)
        + 38 * (F 5 * G 5) + 19 * (F 6 * G 4) + 38 * (F 7 * G 3) + 19 * (F 8 * G 2) + 38 * (F 9 * G 1),
      (F 0 * G 1) + (F 1 * G 0) + 19 * (F 2 * G 9) + 19 * (F 3 * G 8) + 19 * (F 4 * G 7)
        + 19 * (F 5 * G 6) + 19 * (F 6 * G 5) + 19 * (F 7 * G 4) + 19 * (F 8 * G 3) + 19 * (F 9 * G 2),
      (F 0 * G 2) + 2 * (F 1 * G 1) + (F 2 * G 0) + 38 * (F 3 * G 9) + 19 * (F 4 * G 8)
        + 38 * (F 5 * G 7) + 19 * (F 6 * G 6) + 38 * (F 7 * G 5) + 19 * (F 8 * G 4) + 38 * (F 9 * G 3),
      (F 0 * G 3) + (F 1 * G 2) + (F 2 * G 1) + (F 3 * G 0) + 19 * (F 4 * G 9)
        + 19 * (F 5 * G 8) + 19 * (F 6 * G 7) + 19 * (F 7 * G 6) + 19 * (F 8 * G 5) + 19 * (F 9 * G 4),
      (F 0 * G 4) + 2 * (F 1 * G 3) + (F 2 * G 2) + 2 * (F 3 * G 1) + (F 4 * G 0)
        + 38 * (F 5 * G 9) + 19 * (F 6 * G 8) + 38 * (F 7 * G 7) + 19 * (F 8 * G 6) + 38 * (F 9 * G 5),
      (F 0 * G 5) + (F 1 * G 4) + (F 2 * G 3) + (F 3 * G 2) + (F 4 * G 1)
        + (F 5 * G 0) + 19 * (F 6 * G 9) + 19 * (F 7 * G 8) + 19 * (F 8 * G 7) + 19 * (F 9 * G 6),
      (F 0 * G 6) + 2 * (F 1 * G 5) + (F 2 * G 4) + 2 * (F 3 * G 3) + (F 4 * G 2)
        + 2 * (F 5 * G 1) + (F 6 * G 0) + 38 * (F 7 * G 9) + 19 * (F 8 * G 8) + 38 * (F 9 * G 7),
      (F 0 * G 7) + (F 1 * G 6) + (F 2 * G 5) + (F 3 * G 4) + (F 4 * G 3)
        + (F 5 * G 2) + (F 6 * G 1) + (F 7 * G 0) + 19 * (F 8 * G 9) + 19 * (F 9 * G 8),
      (F 0 * G 8) + 2 * (F 1 * G 7) + (F 2 * G 6) + 2 * (F 3 * G 5) + (F 4 * G 4)
        + 2 * (F 5 * G 3) + (F 6 * G 2) + 2 * (F 7 * G 1) + (F 8 * G 0) + 38 * (F 9 * G 9),
      (F 0 * G 9) + (F 1 * G 8) + (F 2 * G 7) + (F 3 * G 6) + (F 4 * G 5)
        + (F 5 * G 4) + (F 6 * G 3) + (F 7 * G 2) + (F 8 * G 1) + (F 9 * G 0)]"

text \<open>
  The factor with which the product of limbs \<open>i\<close> and \<open>j\<close> enters limb \<open>(i + j) mod 10\<close>: 2 when both
  weights were rounded up, and 19 when the product passes \<open>2^255\<close>.
\<close>

definition twice :: "nat \<Rightarrow> nat \<Rightarrow> nat" where
  "twice i j = (if odd i \<and> odd j then 1 else 0)"

definition factor :: "nat \<Rightarrow> nat \<Rightarrow> int" where
  "factor i j = 2 ^ twice i j * (if 10 \<le> i + j then 19 else 1)"

definition partner :: "nat \<Rightarrow> nat \<Rightarrow> nat" where
  "partner k i = (k + 10 - i) mod 10"

lemma sum_below_10: "(\<Sum>i<(10::nat). f i) = f 0 + f 1 + f 2 + f 3 + f 4 + f 5 + f 6 + f 7 + f 8 + (f 9 :: 'a::comm_monoid_add)"
  by (simp add: numeral_eq_Suc add.assoc)

lemma int_products_nth:
  assumes "k < 10"
  shows "int_products F G ! k = (\<Sum>i<10. factor i (partner k i) * (F i * G (partner k i)))"
proof -
  have "k \<in> {0, 1, 2, 3, 4, 5, 6, 7, 8, 9}"
    using assms by auto
  then show ?thesis
    unfolding sum_below_10 int_products_def factor_def twice_def partner_def by (elim insertE) simp_all
qed

lemma limb_weight_eq: "limb_weight i = 25 * i + (i + 1) div 2"
  unfolding limb_weight_def by presburger

lemma half_add: "(i + 1) div 2 + (j + 1) div 2 = (i + j + 1) div 2 + twice i j"
  unfolding twice_def by (cases "odd i"; cases "odd j") (auto elim!: oddE)

lemma limb_weight_wrap: "limb_weight (10 + k) = limb_weight k + 255"
  unfolding limb_weight_eq by presburger

lemma weights_add:
  assumes "i < 10" "j < 10"
  shows "limb_weight i + limb_weight j =
    limb_weight ((i + j) mod 10) + twice i j + (if 10 \<le> i + j then 255 else 0)"
proof -
  have sum: "limb_weight i + limb_weight j = limb_weight (i + j) + twice i j"
    using half_add [of i j] by (simp add: limb_weight_eq)
  show ?thesis
  proof (cases "10 \<le> i + j")
    case True
    then have "limb_weight (i + j) = limb_weight (i + j - 10) + 255" "(i + j) mod 10 = i + j - 10"
      using limb_weight_wrap [of "i + j - 10"] assms by (simp_all add: mod_if)
    with sum True show ?thesis
      by simp
  next
    case False
    then show ?thesis
      using sum by simp
  qed
qed

lemma power_weights:
  assumes "i < 10" "k < 10"
  shows "(2::int) ^ limb_weight i * 2 ^ limb_weight (partner k i) =
    factor i (partner k i) * 2 ^ limb_weight k +
    field_prime * (if 10 \<le> i + partner k i then 2 ^ (twice i (partner k i) + limb_weight k) else 0)"
proof -
  have j: "partner k i < 10" and k: "(i + partner k i) mod 10 = k"
    using assms by (auto simp: partner_def mod_simps)
  have "(2::int) ^ limb_weight i * 2 ^ limb_weight (partner k i) =
      2 ^ (limb_weight k + twice i (partner k i) + (if 10 \<le> i + partner k i then 255 else 0))"
    using weights_add [OF assms(1) j] by (simp add: k flip: power_add)
  also have "\<dots> = 2 ^ twice i (partner k i) * 2 ^ limb_weight k * (if 10 \<le> i + partner k i then 2 ^ 255 else 1)"
    by (simp add: power_add)
  also have "(2::int) ^ 255 = field_prime + 19"
    by (simp add: field_prime_def)
  finally show ?thesis
    by (simp add: factor_def power_add algebra_simps)
qed

lemma sum_partner: "i < 10 \<Longrightarrow> (\<Sum>j<10. f j) = (\<Sum>k<10. f (partner k i))"
proof (rule sum.reindex_bij_witness [of _ "\<lambda>k. partner k i" "\<lambda>j. (i + j) mod 10"])
qed (auto simp: partner_def mod_if)

lemma int_products_value:
  "\<exists>q. (\<Sum>i<10. F i * 2 ^ limb_weight i) * (\<Sum>i<10. G i * 2 ^ limb_weight i) =
     limbs_value (int_products F G) + field_prime * q"
proof -
  let ?q = "\<lambda>k i. if 10 \<le> i + partner k i then 2 ^ (twice i (partner k i) + limb_weight k) else 0"
  have "(\<Sum>i<10. F i * 2 ^ limb_weight i) * (\<Sum>i<10. G i * 2 ^ limb_weight i)
      = (\<Sum>i<10. \<Sum>j<10. F i * G j * (2 ^ limb_weight i * 2 ^ limb_weight j))"
    by (simp add: sum_product mult_ac)
  also have "\<dots> = (\<Sum>i<10. \<Sum>k<10. F i * G (partner k i) * (2 ^ limb_weight i * 2 ^ limb_weight (partner k i)))"
    by (intro sum.cong [OF refl] sum_partner) simp
  also have "\<dots> = (\<Sum>k<10. \<Sum>i<10. F i * G (partner k i) * (2 ^ limb_weight i * 2 ^ limb_weight (partner k i)))"
    by (rule sum.swap)
  also have "\<dots> = (\<Sum>k<10. \<Sum>i<10. factor i (partner k i) * (F i * G (partner k i)) * 2 ^ limb_weight k
      + field_prime * (?q k i * (F i * G (partner k i))))"
    by (intro sum.cong [OF refl]) (simp add: power_weights algebra_simps)
  also have "\<dots> = (\<Sum>k<10. int_products F G ! k * 2 ^ limb_weight k)
      + field_prime * (\<Sum>k<10. \<Sum>i<10. ?q k i * (F i * G (partner k i)))"
    by (simp add: sum.distrib int_products_nth sum_distrib_right sum_distrib_left)
  finally show ?thesis
    unfolding limbs_value_def by blast
qed

section \<open>Multiplication\<close>

lemma fe_mul_products_words:
  "fe_mul_products f g = map word_of_int (int_products (\<lambda>i. sint (f ! i)) (\<lambda>i. sint (g ! i)))"
  unfolding fe_mul_products_def int_products_def Let_def scast_eq
  by (simp add: mult.assoc mult.left_commute)

lemma limbs_within_nth: "limbs_within B f \<Longrightarrow> i < 10 \<Longrightarrow> \<bar>sint (f ! i)\<bar> \<le> B"
  by (simp add: limbs_within_def)

lemma int_products_bound:
  assumes "limbs_within (2 ^ 27) f" "limbs_within (2 ^ 27) g" "k < 10"
  shows "\<bar>int_products (\<lambda>i. sint (f ! i)) (\<lambda>i. sint (g ! i)) ! k\<bar> \<le> 380 * 2 ^ 54"
proof -
  let ?t = "\<lambda>i. factor i (partner k i) * (sint (f ! i) * sint (g ! (partner k i)))"
  have "\<bar>?t i\<bar> \<le> 38 * 2 ^ 54" if "i < 10" for i
  proof -
    have "\<bar>factor i (partner k i)\<bar> \<le> 38"
      by (simp add: factor_def twice_def)
    moreover have "\<bar>sint (f ! i) * sint (g ! (partner k i))\<bar> \<le> 2 ^ 27 * 2 ^ 27"
      unfolding abs_mult using assms that by (intro mult_mono limbs_within_nth) (auto simp: partner_def)
    ultimately have "\<bar>?t i\<bar> \<le> 38 * (2 ^ 27 * 2 ^ 27)"
      unfolding abs_mult [of "factor _ _"] by (rule mult_mono) auto
    then show ?thesis
      by simp
  qed
  then have "(\<Sum>i<10. \<bar>?t i\<bar>) \<le> (\<Sum>i<(10::nat). 38 * 2 ^ 54)"
    by (intro sum_mono) simp
  then show ?thesis
    using assms(3) by (simp add: int_products_nth order_trans [OF sum_abs])
qed

lemma length_int_products [simp]: "length (int_products F G) = 10"
  by (simp add: int_products_def)

lemma fe_value_sum: "length f = 10 \<Longrightarrow> fe_value f = (\<Sum>i<10. sint (f ! i) * 2 ^ limb_weight i)"
  by (simp add: fe_value_def limbs_value_def)

lemma fe_mul_products_represents:
  assumes f: "limbs_within (2 ^ 27) f" and g: "limbs_within (2 ^ 27) g"
  shows "represents (fe_value f * fe_value g) (replicate 10 (380 * 2 ^ 54)) (fe_mul_products f g)"
proof -
  let ?H = "int_products (\<lambda>i. sint (f ! i)) (\<lambda>i. sint (g ! i))"
  have small: "\<bar>x\<bar> \<le> 380 * 2 ^ 54" if "x \<in> set ?H" for x
    using int_products_bound [OF f g] that by (metis in_set_conv_nth length_int_products)
  then have "sint (word_of_int x :: i64) = x" if "x \<in> set ?H" for x
    using that by (intro sint_eqI [OF refl]) fastforce+
  then have ints: "map sint (fe_mul_products f g) = ?H"
    unfolding fe_mul_products_words by (simp add: map_idI)
  obtain q where q: "fe_value f * fe_value g = limbs_value ?H + field_prime * q"
    using int_products_value [of "\<lambda>i. sint (f ! i)" "\<lambda>i. sint (g ! i)"] f g
    by (auto simp: fe_value_sum limbs_within_def)
  have len: "length (fe_mul_products f g) = 10"
    by (simp add: fe_mul_products_words)
  have "\<bar>sint (fe_mul_products f g ! i)\<bar> \<le> 380 * 2 ^ 54" if "i < 10" for i
    using small [of "?H ! i"] that len arg_cong [OF ints, of "\<lambda>xs. xs ! i"] by simp
  then show ?thesis
    by (simp add: represents_def ints q len)
qed

lemma represents_mono:
  "represents n B h \<Longrightarrow> \<forall>i<10. B ! i \<le> B' ! i \<Longrightarrow> length B' = 10 \<Longrightarrow> represents n B' h"
  unfolding represents_def by (meson order_trans)

text \<open>
  A chain of carries as data, and the bounds after it: \<open>None\<close> when some carry could leave the range
  of an \<open>L\<close>-bit integer or would change the residue class.
\<close>

fun chain_bounds :: "nat \<Rightarrow> (nat \<times> nat \<times> nat \<times> int) list \<Rightarrow> int list \<Rightarrow> int list option" where
  "chain_bounds L [] B = Some B"
| "chain_bounds L ((i, j, b, m) # cs) B =
     (let c = (B ! i + 2 ^ (b - 1)) div 2 ^ b + 1
      in if i < 10 \<and> j < 10 \<and> i \<noteq> j \<and> 0 < b \<and> b < L \<and> 0 < m \<and>
           B ! i + 2 ^ (b - 1) < 2 ^ (L - 1) \<and> B ! j + m * c < 2 ^ (L - 1) \<and>
           (m * 2 ^ limb_weight j - 2 ^ b * 2 ^ limb_weight i) mod field_prime = 0
         then chain_bounds L cs (B[j := B ! j + m * c, i := 2 ^ (b - 1)]) else None)"

definition run_chain :: "(nat \<times> nat \<times> nat \<times> int) list \<Rightarrow> 'a::len word list \<Rightarrow> 'a word list" where
  "run_chain = fold (\<lambda>(i, j, b, m). carry i j b (word_of_int m))"

lemma chain_represents:
  fixes h :: "'a::len word list"
  shows "represents n B h \<Longrightarrow> chain_bounds LENGTH('a) cs B = Some B' \<Longrightarrow> represents n B' (run_chain cs h)"
proof (induction cs arbitrary: B h)
  case (Cons c cs)
  obtain i j b m where c: "c = (i, j, b, m)"
    by (metis prod.exhaust)
  let ?B = "B[j := B ! j + m * ((B ! i + 2 ^ (b - 1)) div 2 ^ b + 1), i := 2 ^ (b - 1)]"
  have step: "represents n ?B (carry i j b (word_of_int m) h)"
    using Cons.prems unfolding c
    by (intro carry_represents [OF _ _ _ _ _ _ _ _ _ _ _ refl]) (auto simp: Let_def split: if_splits)
  have "chain_bounds LENGTH('a) cs ?B = Some B'"
    using Cons.prems(2) unfolding c by (simp add: Let_def split: if_splits)
  from Cons.IH [OF step this] show ?case
    by (simp add: run_chain_def c)
qed (simp add: run_chain_def)

definition mul_chain :: "(nat \<times> nat \<times> nat \<times> int) list" where
  "mul_chain = [(0, 1, 26, 1), (4, 5, 26, 1), (1, 2, 25, 1), (5, 6, 25, 1), (2, 3, 26, 1),
     (6, 7, 26, 1), (3, 4, 25, 1), (7, 8, 25, 1), (4, 5, 26, 1), (8, 9, 26, 1), (9, 0, 25, 19),
     (0, 1, 26, 1)]"

lemma fe_mul_carries_chain: "fe_mul_carries h = run_chain mul_chain h"
  by (simp add: fe_mul_carries_def run_chain_def mul_chain_def Let_def)

lemma mul_chain_bounds:
  "\<exists>B. chain_bounds 64 mul_chain (replicate 10 (380 * 2 ^ 54)) = Some B \<and> (\<forall>i<10. B ! i \<le> 2 ^ 26)"
proof -
  have "replicate 10 x = [x, x, x, x, x, x, x, x, x, x]" for x :: int
    by (simp add: numeral_eq_Suc)
  moreover have "(\<forall>i<10. P i) \<longleftrightarrow> P 0 \<and> P 1 \<and> P 2 \<and> P 3 \<and> P 4 \<and> P 5 \<and> P 6 \<and> P 7 \<and> P 8 \<and> P (9::nat)" for P
    by (simp add: numeral_eq_Suc All_less_Suc2)
  ultimately show ?thesis
    by (simp add: mul_chain_def limb_weight_def field_prime_def)
qed

lemma fe_mul_carries_represents:
  assumes "represents n (replicate 10 (380 * 2 ^ 54)) h"
  shows "represents n (replicate 10 (2 ^ 26)) (fe_mul_carries h)"
proof -
  obtain B where B: "chain_bounds 64 mul_chain (replicate 10 (380 * 2 ^ 54)) = Some B" "\<forall>i<10. B ! i \<le> 2 ^ 26"
    using mul_chain_bounds by blast
  have "represents n B (run_chain mul_chain h)"
    by (rule chain_represents [OF assms]) (use B(1) in simp)
  then show ?thesis
    unfolding fe_mul_carries_chain by (rule represents_mono) (use B(2) in simp_all)
qed

lemma represents_within: "represents n (replicate 10 B) h \<Longrightarrow> limbs_within B h"
  by (auto simp: represents_def limbs_within_def in_set_conv_nth)

lemma fe_mul_sound:
  assumes "limbs_within (2 ^ 27) f" "limbs_within (2 ^ 27) g"
  shows "limbs_within (2 ^ 26) (fe_mul f g)"
    and "fe_value (fe_mul f g) mod field_prime = fe_value f * fe_value g mod field_prime"
proof -
  let ?h = "fe_mul_carries (fe_mul_products f g)"
  have h: "represents (fe_value f * fe_value g) (replicate 10 (2 ^ 26)) ?h"
    by (intro fe_mul_carries_represents fe_mul_products_represents assms)
  then have within: "limbs_within (2 ^ 26) ?h"
    by (rule represents_within)
  have narrow: "sint (ucast x :: i32) = sint x" if "x \<in> set ?h" for x
  proof (rule sint_eqI)
    show "(ucast x :: i32) = word_of_int (sint x)"
      by (rule bit_word_eqI) (simp add: bit_simps)
    show "- (2 ^ (LENGTH(32) - 1)) \<le> sint x" "sint x < 2 ^ (LENGTH(32) - 1)"
      using within that by (auto simp: limbs_within_def abs_le_iff)
  qed
  show "limbs_within (2 ^ 26) (fe_mul f g)"
    using within by (auto simp: limbs_within_def fe_mul_def narrow)
  have "fe_value (fe_mul f g) = limbs_value (map sint ?h)"
    by (simp add: fe_value_def fe_mul_def narrow cong: map_cong)
  with h show "fe_value (fe_mul f g) mod field_prime = fe_value f * fe_value g mod field_prime"
    by (simp add: represents_def)
qed

text \<open>
  What \<open>fe_invert\<close> needs of the multiplication: it stays among the admissible elements and is a
  multiplication modulo \<open>p\<close> on the values. The lemmas count exponents along a chain of products.
\<close>

locale field_multiplication =
  fixes adm :: "'f \<Rightarrow> bool" and val :: "'f \<Rightarrow> int" and mul :: "'f \<Rightarrow> 'f \<Rightarrow> 'f" and p :: int
  assumes mul_adm: "adm a \<Longrightarrow> adm b \<Longrightarrow> adm (mul a b)"
    and mul_val: "adm a \<Longrightarrow> adm b \<Longrightarrow> val (mul a b) mod p = val a * val b mod p"
begin

definition is_power :: "'f \<Rightarrow> nat \<Rightarrow> 'f \<Rightarrow> bool" where
  "is_power z n a \<longleftrightarrow> adm a \<and> val a mod p = val z ^ n mod p"

lemma power_one: "adm z \<Longrightarrow> is_power z 1 z"
  by (simp add: is_power_def)

lemma power_mul:
  assumes "is_power z m a" "is_power z n b"
  shows "is_power z (m + n) (mul a b)"
proof -
  have "val a * val b mod p = val z ^ m * val z ^ n mod p"
    using assms by (intro mod_mult_cong) (simp_all add: is_power_def)
  then have "val (mul a b) mod p = val z ^ (m + n) mod p"
    using assms by (simp add: is_power_def mul_val power_add)
  then show ?thesis
    using assms by (simp add: is_power_def mul_adm)
qed

lemma power_square: "is_power z n a \<Longrightarrow> is_power z (2 * n) (mul a a)"
  using power_mul [of z n a n a] by (simp add: mult_2)

lemma power_squares: "is_power z n a \<Longrightarrow> is_power z (2 ^ k * n) (((\<lambda>x. mul x x) ^^ k) a)"
  by (induction k) (auto dest: power_square simp: mult.assoc)

end

interpretation fe: field_multiplication "limbs_within (2 ^ 27)" fe_value fe_mul field_prime
proof
  fix a b :: fe
  assume "limbs_within (2 ^ 27) a" "limbs_within (2 ^ 27) b"
  note fe_mul_sound [OF this]
  then show "limbs_within (2 ^ 27) (fe_mul a b)"
    "fe_value (fe_mul a b) mod field_prime = fe_value a * fe_value b mod field_prime"
    by (auto simp: limbs_within_def)
qed

lemma fe_sq_fun: "fe_sq = (\<lambda>x. fe_mul x x)"
  by (simp add: fun_eq_iff fe_sq_def)

lemma fe_invert_power:
  assumes z: "limbs_within (2 ^ 27) z"
  shows "fe.is_power z (2 ^ 255 - 21) (fe_invert z)"
proof -
  note mul = fe.power_mul and sq = fe.power_square [folded fe_sq_def]
    and sqs = fe.power_squares [folded fe_sq_fun]
  note z1 = fe.power_one [OF z]
  define t0 where "t0 = fe_mul (fe_sq z) (fe_mul z (fe_sq (fe_sq (fe_sq z))))"
  have t0: "fe.is_power z 11 t0"
    using mul [OF sq [OF z1] mul [OF z1 sq [OF sq [OF sq [OF z1]]]]] by (simp add: t0_def)
  define a5 where "a5 = fe_mul (fe_mul z (fe_sq (fe_sq (fe_sq z)))) (fe_sq t0)"
  have a5: "fe.is_power z (2 ^ 5 - 1) a5"
    using mul [OF mul [OF z1 sq [OF sq [OF sq [OF z1]]]] sq [OF t0]] by (simp add: a5_def)
  define a10 where "a10 = fe_mul ((fe_sq ^^ 4) (fe_sq a5)) a5"
  have a10: "fe.is_power z (2 ^ 10 - 1) a10"
    using mul [OF sqs [OF sq [OF a5], of 4] a5] by (simp add: a10_def)
  define a20 where "a20 = fe_mul ((fe_sq ^^ 9) (fe_sq a10)) a10"
  have a20: "fe.is_power z (2 ^ 20 - 1) a20"
    using mul [OF sqs [OF sq [OF a10], of 9] a10] by (simp add: a20_def)
  define a40 where "a40 = fe_mul ((fe_sq ^^ 19) (fe_sq a20)) a20"
  have a40: "fe.is_power z (2 ^ 40 - 1) a40"
    using mul [OF sqs [OF sq [OF a20], of 19] a20] by (simp add: a40_def)
  define a50 where "a50 = fe_mul ((fe_sq ^^ 9) (fe_sq a40)) a10"
  have a50: "fe.is_power z (2 ^ 50 - 1) a50"
    using mul [OF sqs [OF sq [OF a40], of 9] a10] by (simp add: a50_def)
  define a100 where "a100 = fe_mul ((fe_sq ^^ 49) (fe_sq a50)) a50"
  have a100: "fe.is_power z (2 ^ 100 - 1) a100"
    using mul [OF sqs [OF sq [OF a50], of 49] a50] by (simp add: a100_def)
  define a200 where "a200 = fe_mul ((fe_sq ^^ 99) (fe_sq a100)) a100"
  have a200: "fe.is_power z (2 ^ 200 - 1) a200"
    using mul [OF sqs [OF sq [OF a100], of 99] a100] by (simp add: a200_def)
  define a250 where "a250 = fe_mul ((fe_sq ^^ 49) (fe_sq a200)) a50"
  have a250: "fe.is_power z (2 ^ 250 - 1) a250"
    using mul [OF sqs [OF sq [OF a200], of 49] a50] by (simp add: a250_def)
  have "fe_invert z = fe_mul ((fe_sq ^^ 4) (fe_sq a250)) t0"
    by (simp only: fe_invert_def Let_def t0_def a5_def a10_def a20_def a40_def a50_def a100_def
        a200_def a250_def)
  then show ?thesis
    using mul [OF sqs [OF sq [OF a250], of 4] t0] by simp
qed

section \<open>Addition, subtraction and the constant of the curve\<close>

lemma fe_nth_simps [simp]:
  "i < 10 \<Longrightarrow> fe_add f g ! i = f ! i + g ! i" "i < 10 \<Longrightarrow> fe_sub f g ! i = f ! i - g ! i"
  "i < 10 \<Longrightarrow> fe_mul121666 f ! i = f ! i * 121666"
  "length (fe_add f g) = 10" "length (fe_sub f g) = 10" "length (fe_mul121666 f) = 10"
  by (simp_all add: fe_add_def fe_sub_def fe_mul121666_def)

lemma fe_add_sub_sound:
  assumes "limbs_within (2 ^ 26) f" "limbs_within (2 ^ 26) g"
  shows "limbs_within (2 ^ 27) (fe_add f g)" "fe_value (fe_add f g) = fe_value f + fe_value g"
    and "limbs_within (2 ^ 27) (fe_sub f g)" "fe_value (fe_sub f g) = fe_value f - fe_value g"
proof -
  have fg: "\<bar>sint (f ! i)\<bar> \<le> 2 ^ 26" "\<bar>sint (g ! i)\<bar> \<le> 2 ^ 26" if "i < 10" for i
    using assms that by (auto intro: limbs_within_nth)
  have ints: "sint (f ! i + g ! i) = sint (f ! i) + sint (g ! i)"
    "sint (f ! i - g ! i) = sint (f ! i) - sint (g ! i)" if "i < 10" for i
    using fg [OF that] by (auto intro!: sint_eqI simp: abs_le_iff)
  have len: "length f = 10" "length g = 10"
    using assms by (auto simp: limbs_within_def)
  have within: "limbs_within B h \<longleftrightarrow> (\<forall>i<10. \<bar>sint (h ! i)\<bar> \<le> B)" if "length h = 10" for B and h :: fe
    using that by (auto simp: limbs_within_def all_set_conv_all_nth)
  show "limbs_within (2 ^ 27) (fe_add f g)" "limbs_within (2 ^ 27) (fe_sub f g)"
    using fg by (auto simp: within ints abs_le_iff) fastforce+
  show "fe_value (fe_add f g) = fe_value f + fe_value g" "fe_value (fe_sub f g) = fe_value f - fe_value g"
    using len by (simp_all add: fe_value_sum ints ring_distribs sum.distrib sum_subtractf)
qed

text \<open>
  \<open>fe_mul121666\<close> multiplies in \<open>int32_t\<close> and does not carry: the product of a limb is the true one
  exactly when the limb is at most 17650 in size.
\<close>

lemma mul121666_limb: "sint ((x :: i32) * 121666) = sint x * 121666 \<longleftrightarrow> \<bar>sint x\<bar> \<le> 17650"
proof
  assume eq: "sint (x * 121666) = sint x * 121666"
  have "- (2 ^ 31) \<le> sint (x * 121666)" "sint (x * 121666) < 2 ^ 31"
    using sint_greater_eq [of "x * 121666"] sint_less [of "x * 121666"] by simp_all
  then show "\<bar>sint x\<bar> \<le> 17650"
    unfolding eq by simp
next
  assume "\<bar>sint x\<bar> \<le> 17650"
  then show "sint (x * 121666) = sint x * 121666"
    by (intro sint_eqI) auto
qed

section \<open>Properties\<close>

definition small_fe :: "i32 \<Rightarrow> fe" where
  \<comment> \<open>the element with one limb\<close>
  "small_fe x = [x, 0, 0, 0, 0, 0, 0, 0, 0, 0]"

lemma small_fe_simps [simp]: "fe_value (small_fe x) = sint x" "length (small_fe x) = 10"
  "limbs_within B (small_fe x) \<longleftrightarrow> \<bar>sint x\<bar> \<le> B \<and> 0 \<le> B"
  unfolding small_fe_def
  by (simp_all add: fe_value_def limbs_value_def sum_below_10 limb_weight_def limbs_within_def
      eval_nat_numeral)

text \<open>
  Claim C6. Field multiplication is exact: for operands whose limbs are at most \<open>2^27\<close> in size, no
  \<open>int64_t\<close> sum, carry or narrowing to \<open>int32_t\<close> loses anything, the result stands for the product
  modulo \<open>2^255 - 19\<close>, and its limbs are at most \<open>2^26\<close>, so that a sum or a difference of two results
  can be multiplied again.
\<close>

theorem fe_mul_correct:
  assumes "limbs_within (2 ^ 27) f" "limbs_within (2 ^ 27) g"
  shows "limbs_within (2 ^ 26) (fe_mul f g) \<and>
     fe_value (fe_mul f g) mod field_prime = fe_value f * fe_value g mod field_prime"
  using fe_mul_sound [OF assms] ..

theorem fe_mul_correct_witness:
  "limbs_within (2 ^ 26) (fe_mul (small_fe 100000000) (small_fe 100000000)) \<and>
     fe_value (fe_mul (small_fe 100000000) (small_fe 100000000)) mod field_prime =
       10000000000000000 mod field_prime"
  using fe_mul_correct [of "small_fe 100000000" "small_fe 100000000"] by simp

text \<open>
  Claim C34. Addition and subtraction of two reduced elements are exact on the values, and their
  results are admissible operands of a multiplication.
\<close>

theorem fe_add_sub_correct:
  assumes "limbs_within (2 ^ 26) f" "limbs_within (2 ^ 26) g"
  shows "fe_value (fe_add f g) = fe_value f + fe_value g \<and> fe_value (fe_sub f g) = fe_value f - fe_value g \<and>
     limbs_within (2 ^ 27) (fe_add f g) \<and> limbs_within (2 ^ 27) (fe_sub f g)"
  using fe_add_sub_sound [OF assms] by blast

theorem fe_add_sub_correct_witness:
  "fe_value (fe_add (small_fe 7) (small_fe (- 9))) = - 2 \<and> fe_value (fe_sub (small_fe 7) (small_fe (- 9))) = 16"
  using fe_add_sub_correct [of "small_fe 7" "small_fe (- 9)"] by simp

text \<open>
  Claim C33. \<open>fe_invert\<close> raises its argument to the power \<open>p - 2 = 2^255 - 21\<close> modulo the prime
  (the inverse, by Fermat's theorem), through 254 squarings and 11 multiplications all of which stay
  within the bounds of exact multiplication.
\<close>

theorem fe_invert_is_power:
  assumes "limbs_within (2 ^ 27) z"
  shows "fe_value (fe_invert z) mod field_prime = fe_value z ^ (2 ^ 255 - 21) mod field_prime"
  using fe_invert_power [OF assms] unfolding fe.is_power_def ..

theorem fe_invert_is_power_witness:
  "fe_value (fe_invert (small_fe 1)) mod field_prime = 1"
  using fe_invert_is_power [of "small_fe 1"] by (simp add: field_prime_def)

text \<open>
  Claim C38. The multiplication by the curve constant is not a field operation: \<open>fe_mul121666\<close> computes
  in \<open>int32_t\<close> without a carry, so a limb comes out right exactly when it is at most 17650 in size,
  while reduced limbs go up to \<open>2^25\<close>; already for the reduced element \<open>2^25\<close> the result is in the
  wrong residue class.
\<close>

theorem fe_mul121666_overflows:
  "(\<forall>f. length f = 10 \<longrightarrow>
      (map sint (fe_mul121666 f) = map (\<lambda>x. 121666 * sint x) f \<longleftrightarrow> limbs_within 17650 f)) \<and>
   limbs_within (2 ^ 25) (small_fe (2 ^ 25)) \<and>
   fe_value (fe_mul121666 (small_fe (2 ^ 25))) mod field_prime \<noteq>
     121666 * fe_value (small_fe (2 ^ 25)) mod field_prime"
proof (intro conjI allI impI)
  fix f :: fe
  assume len: "length f = 10"
  have "map sint (fe_mul121666 f) = map (\<lambda>x. 121666 * sint x) f \<longleftrightarrow>
      (\<forall>i<10. sint (f ! i * 121666) = sint (f ! i) * 121666)"
    using len by (simp add: list_eq_iff_nth_eq mult.commute)
  then show "map sint (fe_mul121666 f) = map (\<lambda>x. 121666 * sint x) f \<longleftrightarrow> limbs_within 17650 f"
    unfolding mul121666_limb using len by (simp add: limbs_within_def all_set_conv_all_nth)
next
  have "fe_mul121666 (small_fe (2 ^ 25)) = small_fe (2 ^ 25 * 121666)"
    by (simp add: fe_mul121666_def small_fe_def upt_rec)
  then show "fe_value (fe_mul121666 (small_fe (2 ^ 25))) mod field_prime \<noteq>
     121666 * fe_value (small_fe (2 ^ 25)) mod field_prime"
    by (simp add: field_prime_def)
qed simp

theorem fe_mul121666_overflows_witness:
  "map sint (fe_mul121666 (small_fe 17650)) = map (\<lambda>x. 121666 * sint x) (small_fe 17650)"
  using fe_mul121666_overflows by (simp)

end
