(* ===== verification/Curve25519.thy ===== *)
theory Curve25519
  imports Curve25519_Field App_Config
begin

text \<open>
  \<open>src/curve25519_ref10.c\<close>, second part: the conversions between bytes and limbs, the Montgomery
  ladder and the three exported functions. The lemmas say what the code computes: which bits of the
  peer's key the conversion reads, what clamping does to a scalar, what one ladder step makes of
  its operands, and when the conversion back to bytes is right.
\<close>

section \<open>Bytes and limbs\<close>

text \<open>The estimate \<open>q\<close>, the carry chain and the 32 byte expressions of \<open>fe_tobytes\<close>.\<close>

definition fe_tobytes_q :: "fe \<Rightarrow> i32" where
  "fe_tobytes_q t =
     (let q = signed_drop_bit 25 (19 * t ! 9 + push_bit 24 1);
          q = signed_drop_bit 26 (t ! 0 + q);
          q = signed_drop_bit 25 (t ! 1 + q);
          q = signed_drop_bit 26 (t ! 2 + q);
          q = signed_drop_bit 25 (t ! 3 + q);
          q = signed_drop_bit 26 (t ! 4 + q);
          q = signed_drop_bit 25 (t ! 5 + q);
          q = signed_drop_bit 26 (t ! 6 + q);
          q = signed_drop_bit 25 (t ! 7 + q);
          q = signed_drop_bit 26 (t ! 8 + q)
      in q)"

definition fe_tobytes_carries :: "fe \<Rightarrow> fe" where
  "fe_tobytes_carries t =
     (let t = carry 0 1 26 1 t;
          t = carry 1 2 25 1 t;
          t = carry 2 3 26 1 t;
          t = carry 3 4 25 1 t;
          t = carry 4 5 26 1 t;
          t = carry 5 6 25 1 t;
          t = carry 6 7 26 1 t;
          t = carry 7 8 25 1 t;
          t = carry 8 9 26 1 t;
          t = carry 9 0 25 19 t;
          t = carry 0 1 26 1 t;
          t = carry 1 2 25 1 t
      in t)"

definition fe_tobytes_pack :: "fe \<Rightarrow> u8 list" where
  "fe_tobytes_pack t =
        [ucast (signed_drop_bit 0 (t ! 0)),
         ucast (signed_drop_bit 8 (t ! 0)),
         ucast (signed_drop_bit 16 (t ! 0)),
         ucast (signed_drop_bit 24 (t ! 0) OR push_bit 2 (t ! 1)),
         ucast (signed_drop_bit 6 (t ! 1)),
         ucast (signed_drop_bit 14 (t ! 1)),
         ucast (signed_drop_bit 22 (t ! 1) OR push_bit 3 (t ! 2)),
         ucast (signed_drop_bit 5 (t ! 2)),
         ucast (signed_drop_bit 13 (t ! 2)),
         ucast (signed_drop_bit 21 (t ! 2) OR push_bit 5 (t ! 3)),
         ucast (signed_drop_bit 3 (t ! 3)),
         ucast (signed_drop_bit 11 (t ! 3)),
         ucast (signed_drop_bit 19 (t ! 3) OR push_bit 6 (t ! 4)),
         ucast (signed_drop_bit 2 (t ! 4)),
         ucast (signed_drop_bit 10 (t ! 4)),
         ucast (signed_drop_bit 18 (t ! 4)),
         ucast (signed_drop_bit 0 (t ! 5)),
         ucast (signed_drop_bit 8 (t ! 5)),
         ucast (signed_drop_bit 16 (t ! 5)),
         ucast (signed_drop_bit 24 (t ! 5) OR push_bit 1 (t ! 6)),
         ucast (signed_drop_bit 7 (t ! 6)),
         ucast (signed_drop_bit 15 (t ! 6)),
         ucast (signed_drop_bit 23 (t ! 6) OR push_bit 3 (t ! 7)),
         ucast (signed_drop_bit 5 (t ! 7)),
         ucast (signed_drop_bit 13 (t ! 7)),
         ucast (signed_drop_bit 21 (t ! 7) OR push_bit 4 (t ! 8)),
         ucast (signed_drop_bit 4 (t ! 8)),
         ucast (signed_drop_bit 12 (t ! 8)),
         ucast (signed_drop_bit 20 (t ! 8) OR push_bit 6 (t ! 9)),
         ucast (signed_drop_bit 2 (t ! 9)),
         ucast (signed_drop_bit 10 (t ! 9)),
         ucast (signed_drop_bit 18 (t ! 9))]"

definition fe_tobytes :: "fe \<Rightarrow> u8 list" where
  "fe_tobytes h =
     (let t = fe_copy h;
          t = t[9 := t ! 9 + push_bit 25 (fe_tobytes_q t)]
      in fe_tobytes_pack (fe_tobytes_carries t))"

definition load32 :: "u8 list \<Rightarrow> nat \<Rightarrow> i64" where
  \<comment> \<open>\<open>s[i] | ((int64_t)s[i+1] << 8) | ((int64_t)s[i+2] << 16) | ((int64_t)s[i+3] << 24)\<close>\<close>
  "load32 s i = ucast (s ! i) OR push_bit 8 (ucast (s ! (i + 1)))
     OR push_bit 16 (ucast (s ! (i + 2))) OR push_bit 24 (ucast (s ! (i + 3)))"

definition fe_frombytes :: "u8 list \<Rightarrow> fe" where
  "fe_frombytes s =
     (let t0 = load32 s 0; t1 = load32 s 4; t2 = load32 s 8; t3 = load32 s 12;
          t4 = load32 s 16; t5 = load32 s 20; t6 = load32 s 24; t7 = load32 s 28
      in [ucast (t0 AND 0x3ffffff),
          ucast (signed_drop_bit 26 t0 OR push_bit 6 (t1 AND 0x1fff)),
          ucast (signed_drop_bit 19 t1 OR push_bit 13 (t2 AND 0x3ff)),
          ucast (signed_drop_bit 10 t2 OR push_bit 22 (t3 AND 0x7f)),
          ucast (signed_drop_bit 7 t3 AND 0x3ffffff),
          ucast (signed_drop_bit 33 t3 OR push_bit 6 (t4 AND 0x1fff)),
          ucast (signed_drop_bit 20 t4 OR push_bit 13 (t5 AND 0x3ff)),
          ucast (signed_drop_bit 11 t5 OR push_bit 22 (t6 AND 0x7f)),
          ucast (signed_drop_bit 8 t6 AND 0x3ffffff),
          ucast (signed_drop_bit 34 t6 OR push_bit 6 (t7 AND 0x1fff))])"

section \<open>The ladder\<close>

definition curve25519_ref10_clamp_scalar :: "u8 list \<Rightarrow> u8 list" where
  "curve25519_ref10_clamp_scalar scalar =
     (let s = scalar[0 := scalar ! 0 AND 248];
          s = s[31 := s ! 31 AND 127]
      in s[31 := s ! 31 OR 64])"

text \<open>The variables that live across the iterations of the loop.\<close>

record ladder =
  lad_x2 :: fe
  lad_z2 :: fe
  lad_x3 :: fe
  lad_z3 :: fe
  lad_swap :: i32

definition scalar_bit :: "u8 list \<Rightarrow> nat \<Rightarrow> i32" where
  "scalar_bit e pos = ucast (drop_bit (pos mod 8) (e ! (pos div 8)) AND 1)"

definition ladder_exchange :: "ladder \<Rightarrow> ladder" where
  "ladder_exchange l = l\<lparr>lad_x2 := lad_x3 l, lad_x3 := lad_x2 l, lad_z2 := lad_z3 l, lad_z3 := lad_z2 l\<rparr>"

definition ladder_step :: "u8 list \<Rightarrow> fe \<Rightarrow> nat \<Rightarrow> ladder \<Rightarrow> ladder" where
  "ladder_step e x1 pos l =
     (let bt = scalar_bit e pos;
          swap = lad_swap l XOR bt;
          l = (if swap \<noteq> 0 then ladder_exchange l else l);
          x2 = lad_x2 l; z2 = lad_z2 l; x3 = lad_x3 l; z3 = lad_z3 l;
          tmp0 = fe_add x2 z2;
          tmp1 = fe_sub x2 z2;
          z2 = fe_add x3 z3;
          x3 = fe_sub x3 z3;
          z3 = fe_mul tmp0 x3;
          x3 = fe_mul tmp1 z2;
          tmp0 = fe_sq tmp0;
          tmp1 = fe_sq tmp1;
          z2 = fe_add z3 x3;
          x3 = fe_sub z3 x3;
          z3 = fe_sq x3;
          x2 = fe_sub tmp0 tmp1;
          z2 = fe_mul121666 x2;
          z2 = fe_add z2 tmp0;
          x2 = fe_mul tmp0 tmp1;
          z2 = fe_mul z2 x2;
          x3 = fe_sq tmp1;
          z3 = fe_mul z3 x1
      in \<lparr>lad_x2 = x2, lad_z2 = z2, lad_x3 = x3, lad_z3 = z3, lad_swap = bt\<rparr>)"

definition ladder_start :: "fe \<Rightarrow> ladder" where
  "ladder_start x1 = \<lparr>lad_x2 = fe_1, lad_z2 = fe_0, lad_x3 = fe_copy x1, lad_z3 = fe_1, lad_swap = 0\<rparr>"

definition ladder_loop :: "u8 list \<Rightarrow> fe \<Rightarrow> ladder" where
  \<comment> \<open>\<open>for (int pos = 254; pos >= 0; pos--)\<close>\<close>
  "ladder_loop e x1 = fold (ladder_step e x1) (rev [0..<255]) (ladder_start x1)"

definition montgomery_ladder :: "u8 list \<Rightarrow> u8 list \<Rightarrow> u8 list" where
  "montgomery_ladder scalar point =
     (let e = curve25519_ref10_clamp_scalar (take 32 scalar);
          x1 = fe_frombytes point;
          l = ladder_exchange (ladder_loop e x1);
          z2 = fe_invert (lad_z2 l);
          x2 = fe_mul (lad_x2 l) z2
      in fe_tobytes x2)"

definition basepoint :: "u8 list" where
  "basepoint = 9 # replicate 31 0"

definition curve25519_ref10_scalarmult_base :: "u8 list \<Rightarrow> u8 list" where
  "curve25519_ref10_scalarmult_base scalar = montgomery_ladder scalar basepoint"

definition curve25519_ref10_scalarmult :: "u8 list \<Rightarrow> u8 list \<Rightarrow> rc \<times> u8 list" where
  "curve25519_ref10_scalarmult scalar point =
     (let tmp = take 32 point in (0, montgomery_ladder scalar tmp))"

section \<open>What the conversion from bytes reads\<close>

lemma load32_mod: "bit (load32 s i) n \<longleftrightarrow> n < 32 \<and> bit (s ! (i + n div 8)) (n mod 8)"
proof (cases "n < 32")
  case True
  have "i + 1 = Suc i"
    by simp
  from True consider "n < 8" | "8 \<le> n \<and> n < 16" | "16 \<le> n \<and> n < 24" | "24 \<le> n \<and> n < 32"
    by linarith
  then show ?thesis
  proof cases
    case 1
    then show ?thesis
      by (auto simp: load32_def bit_simps)
  next
    case 2
    then have "n div 8 = 1" "n mod 8 = n - 8" "n - 8 < 8"
      by (auto simp: div_nat_eqI mod_if le_div_geq le_mod_geq)
    then show ?thesis
      using 2 by (auto simp: load32_def bit_simps dest: bit_imp_le_length)
  next
    case 3
    then have "n div 8 = 2" "n mod 8 = n - 16" "n - 16 < 8"
      by (auto simp: le_div_geq le_mod_geq)
    then show ?thesis
      using 3 by (auto simp: load32_def bit_simps dest: bit_imp_le_length)
  next
    case 4
    then have "n div 8 = 3" "n mod 8 = n - 24" "n - 24 < 8"
      by (auto simp: le_div_geq le_mod_geq)
    then show ?thesis
      using 4 by (auto simp: load32_def bit_simps dest: bit_imp_le_length)
  qed
next
  case False
  then show ?thesis
    by (auto simp: load32_def bit_simps dest: bit_imp_le_length)
qed

text \<open>
  The masks of the bits that \<open>fe_frombytes\<close> reads, byte by byte: it never looks at bits 45 to 50,
  141 to 147, 170, 199 and 237 to 255 of the point.
\<close>

definition read_mask :: "u8 list" where
  "read_mask = [255, 255, 255, 255, 255, 0x1F, 0xF8, 255, 255, 255, 255, 255, 255, 255, 255, 255,
     255, 0x1F, 0xF0, 255, 255, 0xFB, 255, 255, 0x7F, 255, 255, 255, 255, 0x1F, 0, 0]"

lemma masked_load:
  assumes "i + 4 \<le> length s" "i + 4 \<le> length m"
  shows "load32 (map2 (AND) s m) i = load32 s i AND load32 m i"
proof (rule bit_word_eqI)
  fix n
  have "n < 32 \<Longrightarrow> i + n div 8 < length s \<and> i + n div 8 < length m"
    using assms by (auto simp: div_less_iff_less_mult)
  then show "bit (load32 (map2 (AND) s m) i) n = bit (load32 s i AND load32 m i) n"
    by (auto simp: load32_mod bit_simps)
qed

lemma read_mask_loads:
  "load32 read_mask 0 = mask 32" "load32 read_mask 4 = mask 13 OR push_bit 19 (mask 13)"
  "load32 read_mask 8 = mask 32" "load32 read_mask 12 = mask 32"
  "load32 read_mask 16 = mask 13 OR push_bit 20 (mask 12)"
  "load32 read_mask 20 = mask 10 OR push_bit 11 (mask 21)"
  "load32 read_mask 24 = mask 7 OR push_bit 8 (mask 24)" "load32 read_mask 28 = mask 13"
  by (simp_all add: load32_def read_mask_def mask_eq_exp_minus_1)

lemma limb_masks: "(0x3ffffff :: i64) = mask 26" "(0x1fff :: i64) = mask 13" "(0x3ff :: i64) = mask 10"
  "(0x7f :: i64) = mask 7"
  by (simp_all add: mask_eq_exp_minus_1)

lemma load32_bound [simp]: "bit (load32 s i) n \<Longrightarrow> n < 32"
  by (simp add: load32_mod)

lemma fe_frombytes_masked:
  assumes "length s = 32"
  shows "fe_frombytes (map2 (AND) s read_mask) = fe_frombytes s"
proof -
  have len: "length read_mask = 32"
    by (simp add: read_mask_def)
  show ?thesis
    unfolding fe_frombytes_def Let_def limb_masks list.inject using assms len
    by (simp add: masked_load read_mask_loads)
      (intro conjI; rule bit_word_eqI; auto simp: bit_simps dest: load32_bound)
qed

lemma read_mask_drops: "(\<Sum>b\<leftarrow>read_mask. length (filter (\<lambda>j. \<not> bit b j) [0..<8])) = 34"
proof -
  have "[0..<8] = [0, 1, 2, 3, 4, 5, 6, 7 :: nat]"
    by (simp add: upt_rec)
  then show ?thesis
    by (simp add: read_mask_def)
qed

section \<open>What the conversion to bytes does with small limbs\<close>

definition limb_bits :: "nat \<Rightarrow> nat" where
  "limb_bits i = (if even i then 26 else 25)"

definition small_limbs :: "fe \<Rightarrow> bool" where
  \<comment> \<open>non-negative limbs with one bit to spare\<close>
  "small_limbs h \<longleftrightarrow> length h = 10 \<and> (\<forall>i<10. unat (h ! i) < 2 ^ (limb_bits i - 1))"

lemma small_not_bit:
  assumes "unat (w :: 'a::len word) < 2 ^ b" "b \<le> m"
  shows "\<not> bit w m"
proof
  assume "bit w m"
  then have "bit (unat w) m"
    by (simp add: bit_unsigned_iff bit_imp_le_length)
  moreover have "unat w < 2 ^ m"
    using assms(1) power_increasing [OF assms(2), of "2::nat"] by linarith
  ultimately show False
    by (simp add: bit_iff_odd)
qed

lemma small_shift:
  assumes "unat (w :: i32) < 2 ^ b" "b < 31"
  shows "signed_drop_bit b w = 0"
  by (rule bit_word_eqI) (use assms small_not_bit [of w b] in \<open>auto simp: bit_simps\<close>)

lemma small_add:
  assumes "unat (v :: i32) < 2 ^ a" "unat (w :: i32) \<le> 2 ^ b" "2 ^ a + 2 ^ b \<le> (2::nat) ^ c" "c < 31"
  shows "signed_drop_bit c (v + w) = 0"
proof -
  have c: "unat v + unat w < 2 ^ c"
    using assms by simp
  also have "(2::nat) ^ c < 2 ^ 32"
    using assms(4) by (intro power_strict_increasing) auto
  finally have "unat (v + w) = unat v + unat w"
    by (subst unat_word_ariths) (simp add: mod_less)
  with c show ?thesis
    using assms(4) by (intro small_shift) simp_all
qed

lemma unsigned_of_nat_le: "unat (of_nat n :: 'a::len word) \<le> n"
  by (simp add: unat_of_nat)

text \<open>No carry moves anything.\<close>

lemma carry_noop:
  assumes "unat (h ! i) < 2 ^ (b - 1)" "0 < b" "b < 31" "length h = 10"
  shows "carry i j b m h = (h :: i32 list)"
proof -
  have "unat (push_bit (b - 1) 1 :: i32) \<le> 2 ^ (b - 1)"
    using unsigned_of_nat_le [of "2 ^ (b - 1)"] by (simp add: push_bit_eq_mult)
  moreover have "2 ^ (b - 1) + 2 ^ (b - 1) \<le> (2::nat) ^ b"
    using assms(2) by (cases b) simp_all
  ultimately have "signed_drop_bit b (h ! i + push_bit (b - 1) 1) = 0"
    using small_add [OF assms(1)] assms(3) by blast
  then show ?thesis
    by (simp add: carry_def)
qed

lemma small_if_bits:
  assumes "\<And>m. b \<le> m \<Longrightarrow> \<not> bit (w :: 'a::len word) m"
  shows "unat w < 2 ^ b"
proof -
  have "take_bit b w = w"
    using assms by (intro bit_word_eqI) (auto simp: bit_take_bit_iff not_less [symmetric])
  then show ?thesis
    by (metis take_bit_nat_less_exp unsigned_take_bit_eq)
qed

lemma top_carry_zero:
  assumes "small_limbs h"
  shows "signed_drop_bit 26 (h ! 0 + signed_drop_bit 25 (19 * h ! 9 + push_bit 24 1)) = 0"
    (is "signed_drop_bit 26 (h ! 0 + ?q) = 0")
proof -
  have h9: "unat (h ! 9) < 2 ^ 24" and h0: "unat (h ! 0) < 2 ^ 25"
    using assms unfolding small_limbs_def limb_bits_def
    by (auto dest: spec [of _ 9] spec [of _ 0])
  have "unat (19 * h ! 9 + push_bit 24 1) = 19 * unat (h ! 9) + 2 ^ 24"
    using h9 by (simp add: unat_word_ariths push_bit_eq_mult)
  then have "unat (19 * h ! 9 + push_bit 24 1) < 2 ^ 29"
    using h9 by simp
  then have "\<not> bit (19 * h ! 9 + push_bit 24 1) m" if "29 \<le> m" for m
    using that by (rule small_not_bit)
  then have "\<not> bit ?q m" if "4 \<le> m" for m
    using that by (auto simp: bit_simps)
  then have "unat ?q < 2 ^ 4"
    by (rule small_if_bits)
  then show ?thesis
    using h0 by (intro small_add [of _ 25 _ 4]) simp_all
qed

lemma fe_tobytes_small:
  assumes h: "small_limbs h"
  shows "fe_tobytes h = fe_tobytes_pack h"
proof -
  have len: "length h = 10"
    using h by (simp add: small_limbs_def)
  have copy: "fe_copy h = h"
    using len by (simp add: fe_copy_def list_eq_iff_nth_eq)
  have even: "unat (h ! i) < 2 ^ (26 - 1)" if "i < 10" "even i" for i
    using h that by (auto simp: small_limbs_def limb_bits_def)
  have odd: "unat (h ! i) < 2 ^ (25 - 1)" if "i < 10" "odd i" for i
    using h that by (auto simp: small_limbs_def limb_bits_def)
  have noop: "carry i j 26 m h = h" if "i < 10" "even i" for i j and m :: i32
    using even [OF that] len by (intro carry_noop) simp_all
  have noop': "carry i j 25 m h = h" if "i < 10" "odd i" for i j and m :: i32
    using odd [OF that] len by (intro carry_noop) simp_all
  have shift: "signed_drop_bit 26 (h ! i + 0) = 0" if "i < 10" "even i" for i
    using even [OF that] by (intro small_shift) simp_all
  have shift': "signed_drop_bit 25 (h ! i + 0) = 0" if "i < 10" "odd i" for i
    using odd [OF that] by (intro small_shift) simp_all
  have "fe_tobytes_q h = 0"
    unfolding fe_tobytes_q_def Let_def top_carry_zero [OF h] using shift shift' by simp
  moreover have "fe_tobytes_carries h = h"
    unfolding fe_tobytes_carries_def Let_def by (simp add: noop noop')
  ultimately show ?thesis
    by (simp add: fe_tobytes_def copy)
qed

lemma fe_tobytes_pack_one:
  assumes "unat x < 2 ^ 25"
  shows "fe_tobytes_pack (small_fe x) = le32 x @ replicate 28 0"
proof -
  have "signed_drop_bit n (x :: i32) = drop_bit n x" for n
    using small_not_bit [OF assms, of 31] small_not_bit [OF assms]
    by (intro bit_word_eqI) (auto simp: bit_simps)
  moreover have "signed_drop_bit n (0 :: i32) = 0" for n
    by (rule bit_word_eqI) (simp add: bit_simps)
  ultimately show ?thesis
    by (simp add: fe_tobytes_pack_def small_fe_def le32_def) (simp add: numeral_eq_Suc)
qed

lemma all_below_10: "(\<forall>i<10. P i) \<longleftrightarrow> P 0 \<and> P 1 \<and> P 2 \<and> P 3 \<and> P 4 \<and> P 5 \<and> P 6 \<and> P 7 \<and> P 8 \<and> P (9::nat)"
  by (simp add: numeral_eq_Suc All_less_Suc2)

lemma small_limbs_one: "small_limbs (small_fe x) \<longleftrightarrow> unat x < 2 ^ 25"
  unfolding small_limbs_def all_below_10 by (simp add: small_fe_def limb_bits_def)

section \<open>Clamping\<close>

lemma clamp_nth:
  assumes "length s = 32" "i < 32"
  shows "curve25519_ref10_clamp_scalar s ! i =
     (if i = 0 then s ! 0 AND 248 else if i = 31 then (s ! 31 AND 127) OR 64 else s ! i)"
  using assms by (simp add: curve25519_ref10_clamp_scalar_def Let_def nth_list_update)

lemma length_clamp [simp]: "length (curve25519_ref10_clamp_scalar s) = length s"
  by (simp add: curve25519_ref10_clamp_scalar_def Let_def)

lemma byte_masks: "(248 :: u8) = push_bit 3 (mask 5)" "(127 :: u8) = mask 7" "(64 :: u8) = push_bit 6 (mask 1)"
  "(7 :: u8) = mask 3"
  by (simp_all add: mask_eq_exp_minus_1)

lemma clamp_bytes:
  fixes a :: u8
  shows "a AND 248 AND 248 = a AND 248" "(a AND 248) AND 7 = 0"
    and "((a AND 127) OR 64) AND 127 OR 64 = (a AND 127) OR 64"
    and "bit ((a AND 127) OR 64) 6" "\<not> bit ((a AND 127) OR 64) 7"
  unfolding byte_masks
  by ((rule bit_word_eqI)?, auto simp: bit_simps)+

lemma clamp_idem:
  assumes "length s = 32"
  shows "curve25519_ref10_clamp_scalar (curve25519_ref10_clamp_scalar s) = curve25519_ref10_clamp_scalar s"
  by (rule nth_equalityI) (use assms in \<open>auto simp: clamp_nth clamp_bytes\<close>)

text \<open>The little-endian number of a byte string.\<close>

fun le_number :: "u8 list \<Rightarrow> nat" where
  "le_number [] = 0"
| "le_number (b # bs) = unat b + 256 * le_number bs"

lemma bit_byte_add: "bit (unat (b :: u8) + 256 * n) k \<longleftrightarrow> (if k < 8 then bit b k else bit n (k - 8))"
proof -
  have no: "\<not> bit b j" if "8 \<le> j" for j
    using that by (auto dest: bit_imp_le_length)
  have "unat b AND push_bit 8 n = 0"
    by (rule bit_eqI) (auto simp: bit_simps no)
  then have "unat b + push_bit 8 n = unat b OR push_bit 8 n"
    by (rule disjunctive_add_eq_or)
  moreover have "push_bit 8 n = 256 * n"
    by (simp add: push_bit_eq_mult)
  ultimately have "bit (unat b + 256 * n) k \<longleftrightarrow> bit (unat b OR push_bit 8 n) k"
    by simp
  then show ?thesis
    using no [of k] by (auto simp: bit_simps)
qed

lemma bit_le_number: "bit (le_number bs) k \<longleftrightarrow> k div 8 < length bs \<and> bit (bs ! (k div 8)) (k mod 8)"
proof (induction bs arbitrary: k)
  case (Cons b bs)
  then show ?case
    by (cases "k < 8") (simp_all add: bit_byte_add le_div_geq le_mod_geq not_less)
qed simp

lemma clamp_bits:
  assumes "length s = 32" "k < 256"
  shows "bit (curve25519_ref10_clamp_scalar s ! (k div 8)) (k mod 8) \<longleftrightarrow>
     k = 254 \<or> 3 \<le> k \<and> k < 254 \<and> bit (s ! (k div 8)) (k mod 8)"
proof -
  have i: "k div 8 < 32"
    using assms(2) by simp
  have "(64 :: u8) = 2 ^ 6"
    by simp
  then have top: "bit (64 :: u8) j \<longleftrightarrow> j = 6" for j
    by (simp only: bit_exp_iff possible_bit_word) auto
  have low: "bit (248 :: u8) j \<longleftrightarrow> 3 \<le> j \<and> j < 8" "bit (127 :: u8) j \<longleftrightarrow> j < 7" for j
    unfolding byte_masks(1,2) by (simp_all only: bit_push_bit_iff bit_mask_iff possible_bit_word) auto
  consider "k < 8" | "8 \<le> k" "k < 248" | "248 \<le> k"
    by linarith
  then show ?thesis
  proof cases
    case 1
    then show ?thesis
      using clamp_nth [OF assms(1), of 0] low(1) [of k] by (auto simp: bit_and_iff)
  next
    case 2
    then have "k div 8 \<noteq> 0" "k div 8 \<noteq> 31"
      by auto
    with 2 show ?thesis
      by (simp add: clamp_nth [OF assms(1) i])
  next
    case 3
    then have "k div 8 = 31" "k mod 8 = k - 248"
      using assms(2) by presburger+
    with 3 assms(2) show ?thesis
      using clamp_nth [OF assms(1), of 31] low(2) [of "k - 248"] top [of "k - 248"]
      by (auto simp: bit_and_iff bit_or_iff)
  qed
qed

lemma clamp_number:
  assumes "length s = 32"
  shows "le_number (curve25519_ref10_clamp_scalar s) = 2 ^ 254 + 8 * (le_number s div 8 mod 2 ^ 251)"
proof -
  have 8: "(8 :: nat) = 2 ^ 3"
    by simp
  have "2 ^ 254 + 8 * (le_number s div 8 mod 2 ^ 251) =
      push_bit 254 1 + push_bit 3 (take_bit 251 (drop_bit 3 (le_number s)))"
    unfolding 8 by (simp only: push_bit_eq_mult drop_bit_eq_div take_bit_eq_mod mult_1 mult.commute)
  also have "\<dots> = push_bit 254 1 OR push_bit 3 (take_bit 251 (drop_bit 3 (le_number s)))"
    by (intro disjunctive_add_eq_or bit_eqI)
      (simp only: bit_and_iff bit_push_bit_iff_nat bit_take_bit_iff bit_1_iff bit_0_eq; auto)
  finally have rhs: "2 ^ 254 + 8 * (le_number s div 8 mod 2 ^ 251) = \<dots>" .
  show ?thesis
    unfolding rhs
  proof (rule bit_eqI)
    fix k
    show "bit (le_number (curve25519_ref10_clamp_scalar s)) k \<longleftrightarrow>
        bit (push_bit 254 1 OR push_bit 3 (take_bit 251 (drop_bit 3 (le_number s)))) k"
    proof (cases "k < 256")
      case True
      then have "k div 8 < 32"
        by simp
      with clamp_bits [OF assms True] assms show ?thesis
        by (simp only: bit_le_number bit_or_iff bit_push_bit_iff_nat bit_take_bit_iff bit_drop_bit_eq bit_1_iff
            length_clamp comp_apply) auto
    next
      case False
      with assms show ?thesis
        by (simp only: bit_le_number bit_or_iff bit_push_bit_iff_nat bit_take_bit_iff bit_1_iff length_clamp) auto
    qed
  qed
qed

section \<open>One step of the ladder\<close>

lemma ladder_step_swap [simp]: "lad_swap (ladder_step e x1 pos l) = scalar_bit e pos"
  by (simp add: ladder_step_def Let_def)

lemma ladder_loop_last: "\<exists>l. ladder_loop e x1 = ladder_step e x1 0 l"
proof -
  have "[0..<255] = 0 # [1..<255::nat]"
    by (simp add: upt_rec)
  then have "rev [0..<255] = rev [1..<255] @ [0::nat]"
    by simp
  then show ?thesis
    unfolding ladder_loop_def fold_append by auto
qed

text \<open>The exchange at the start of an iteration.\<close>

definition ladder_input :: "u8 list \<Rightarrow> nat \<Rightarrow> ladder \<Rightarrow> ladder" where
  "ladder_input e pos l = (if lad_swap l XOR scalar_bit e pos \<noteq> 0 then ladder_exchange l else l)"

text \<open>The point that is in \<open>x2\<close> and \<open>z2\<close> after the exchange.\<close>

definition ladder_point :: "u8 list \<Rightarrow> nat \<Rightarrow> ladder \<Rightarrow> fe \<times> fe" where
  "ladder_point e pos l =
     (if lad_swap l = scalar_bit e pos then (lad_x2 l, lad_z2 l) else (lad_x3 l, lad_z3 l))"

lemma ladder_input_point:
  "ladder_point e pos l = (lad_x2 (ladder_input e pos l), lad_z2 (ladder_input e pos l))"
proof -
  have "lad_swap l XOR scalar_bit e pos = 0 \<longleftrightarrow> lad_swap l = scalar_bit e pos"
    by (auto simp: bit_eq_iff bit_xor_iff)
  then show ?thesis
    by (simp add: ladder_point_def ladder_input_def ladder_exchange_def)
qed

lemma ladder_step_results:
  fixes l :: ladder and e :: "u8 list" and pos :: nat
  defines "a \<equiv> fe_add (lad_x2 (ladder_input e pos l)) (lad_z2 (ladder_input e pos l))"
    and "b \<equiv> fe_sub (lad_x2 (ladder_input e pos l)) (lad_z2 (ladder_input e pos l))"
  shows "lad_x2 (ladder_step e x1 pos l) = fe_mul (fe_sq a) (fe_sq b)"
    and "lad_z2 (ladder_step e x1 pos l) =
      fe_mul (fe_add (fe_mul121666 (fe_sub (fe_sq a) (fe_sq b))) (fe_sq a)) (fe_mul (fe_sq a) (fe_sq b))"
    and "lad_x3 (ladder_step e x1 pos l) = fe_sq (fe_sq b)"
  by (simp_all add: ladder_step_def Let_def a_def b_def ladder_input_def)

section \<open>Properties\<close>

text \<open>
  Claim C39. The conversion from bytes does not read the whole point: thirty-four bits of the peer's
  key, the zero bits of \<open>read_mask\<close>, are dropped (bits 45 to 50, 141 to 147, 170, 199 and 237 to 255,
  where only bit 255 is meant to be). So two keys that agree on the other bits lead to the same shared
  secret under every scalar.
\<close>

theorem scalarmult_ignores_point_bits:
  assumes "length p = 32" "length q = 32" "map2 (AND) p read_mask = map2 (AND) q read_mask"
  shows "curve25519_ref10_scalarmult k p = curve25519_ref10_scalarmult k q \<and>
     (\<Sum>b\<leftarrow>read_mask. length (filter (\<lambda>j. \<not> bit b j) [0..<8])) = 34"
proof -
  have "fe_frombytes p = fe_frombytes q"
    using fe_frombytes_masked [OF assms(1)] fe_frombytes_masked [OF assms(2)] assms(3) by simp
  then show ?thesis
    using assms(1,2) read_mask_drops by (simp add: curve25519_ref10_scalarmult_def montgomery_ladder_def Let_def)
qed

theorem scalarmult_ignores_point_bits_witness:
  "curve25519_ref10_scalarmult (replicate 32 1) (9 # replicate 31 0) =
   curve25519_ref10_scalarmult (replicate 32 1) (9 # replicate 29 0 @ [85, 3])"
proof -
  have "replicate 31 0 = replicate 29 0 @ [0, 0 :: u8]"
    by (simp add: replicate_add [of 29 2, simplified] numeral_2_eq_2)
  then have "map2 (AND) (9 # replicate 31 0) read_mask = map2 (AND) (9 # replicate 29 0 @ [85, 3]) read_mask"
    by (simp add: read_mask_def eval_nat_numeral)
  then show ?thesis
    using scalarmult_ignores_point_bits [of "9 # replicate 31 0" "9 # replicate 29 0 @ [85, 3]" "replicate 32 1"]
    by simp
qed

text \<open>
  Claim C35. What clamping does, bit by bit and as a number: of the 256 bits of the little-endian
  scalar, bit 254 of the result is 1, bits 0, 1, 2 and 255 are 0, and every other bit is that of the
  input; that is, the result is \<open>2^254 + 8 k\<close> with \<open>k\<close> made of the bits 3 to 253 of the input. Clamping
  is idempotent, and scalar multiplication depends on a scalar only through its clamped form.
\<close>

theorem clamp_scalar_correct:
  assumes "length s = 32"
  shows "length (curve25519_ref10_clamp_scalar s) = 32 \<and>
     (\<forall>k < 256. bit (curve25519_ref10_clamp_scalar s ! (k div 8)) (k mod 8) \<longleftrightarrow>
        k = 254 \<or> 3 \<le> k \<and> k < 254 \<and> bit (s ! (k div 8)) (k mod 8)) \<and>
     le_number (curve25519_ref10_clamp_scalar s) = 2 ^ 254 + 8 * (le_number s div 8 mod 2 ^ 251) \<and>
     curve25519_ref10_clamp_scalar (curve25519_ref10_clamp_scalar s) = curve25519_ref10_clamp_scalar s \<and>
     curve25519_ref10_scalarmult (curve25519_ref10_clamp_scalar s) p = curve25519_ref10_scalarmult s p"
proof -
  have "curve25519_ref10_scalarmult (curve25519_ref10_clamp_scalar s) p = curve25519_ref10_scalarmult s p"
    using assms by (simp add: curve25519_ref10_scalarmult_def montgomery_ladder_def clamp_idem)
  then show ?thesis
    using clamp_bits [OF assms] clamp_number [OF assms] clamp_idem [OF assms] assms by simp
qed

theorem clamp_scalar_correct_witness:
  "le_number (curve25519_ref10_clamp_scalar (replicate 32 0)) = 2 ^ 254"
proof -
  have "le_number (replicate n 0) = 0" for n
    by (induction n) simp_all
  then show ?thesis
    using clamp_scalar_correct [of "replicate 32 0"] by simp
qed

text \<open>
  Claim C36. What one ladder step computes, from any state and for any bit of the scalar. After the
  conditional exchange at its start one of the two points is in \<open>x2\<close> and \<open>z2\<close> (\<open>ladder_point\<close>). The \<open>x2\<close>,
  \<open>z2\<close> and \<open>x3\<close> of the next iteration are functions of this point alone, in particular \<open>x3\<close> is the
  square of the square of \<open>x2 - z2\<close> in the code's field operations: two states that agree on it give the
  same three results whatever their other point is. So the step is not the differential addition of
  RFC 7748, in which the new \<open>x3\<close> depends on both points.
\<close>

theorem ladder_step_drops_second_point:
  assumes "ladder_point e pos l = (x, z)" "ladder_point e pos l' = (x, z)"
  shows "lad_x3 (ladder_step e x1 pos l) = fe_sq (fe_sq (fe_sub x z)) \<and>
     lad_x2 (ladder_step e x1 pos l) = fe_mul (fe_sq (fe_add x z)) (fe_sq (fe_sub x z)) \<and>
     lad_x3 (ladder_step e x1 pos l') = lad_x3 (ladder_step e x1 pos l) \<and>
     lad_x2 (ladder_step e x1 pos l') = lad_x2 (ladder_step e x1 pos l) \<and>
     lad_z2 (ladder_step e x1 pos l') = lad_z2 (ladder_step e x1 pos l)"
proof -
  have "lad_x2 (ladder_input e pos l) = x" "lad_z2 (ladder_input e pos l) = z"
    "lad_x2 (ladder_input e pos l') = x" "lad_z2 (ladder_input e pos l') = z"
    using assms by (simp_all add: ladder_input_point)
  then show ?thesis
    by (simp add: ladder_step_results)
qed

theorem ladder_step_drops_second_point_witness:
  "lad_x3 (ladder_step (replicate 32 0) (small_fe 9) 3 (ladder_start (small_fe 9))) =
   lad_x3 (ladder_step (replicate 32 0) (small_fe 9) 3 ((ladder_start (small_fe 9))\<lparr>lad_x3 := small_fe 5\<rparr>)) \<and>
   lad_x3 (ladder_step (replicate 32 1) (small_fe 9) 8 (ladder_start (small_fe 9))) =
   lad_x3 (ladder_step (replicate 32 1) (small_fe 9) 8 ((ladder_start (small_fe 9))\<lparr>lad_x2 := small_fe 5\<rparr>))"
proof
  let ?l = "ladder_start (small_fe 9)" and ?e = "replicate 32 0" and ?o = "replicate 32 1"
  have "ladder_point ?e 3 ?l = (lad_x2 ?l, lad_z2 ?l)" "ladder_point ?e 3 (?l\<lparr>lad_x3 := small_fe 5\<rparr>) = (lad_x2 ?l, lad_z2 ?l)"
    by (simp_all add: ladder_point_def ladder_start_def scalar_bit_def)
  from ladder_step_drops_second_point [OF this, of "small_fe 9"]
  show "lad_x3 (ladder_step ?e (small_fe 9) 3 ?l) = lad_x3 (ladder_step ?e (small_fe 9) 3 (?l\<lparr>lad_x3 := small_fe 5\<rparr>))"
    by simp
  have "ladder_point ?o 8 ?l = (lad_x3 ?l, lad_z3 ?l)" "ladder_point ?o 8 (?l\<lparr>lad_x2 := small_fe 5\<rparr>) = (lad_x3 ?l, lad_z3 ?l)"
    by (simp_all add: ladder_point_def ladder_start_def scalar_bit_def)
  from ladder_step_drops_second_point [OF this, of "small_fe 9"]
  show "lad_x3 (ladder_step ?o (small_fe 9) 8 ?l) = lad_x3 (ladder_step ?o (small_fe 9) 8 (?l\<lparr>lad_x2 := small_fe 5\<rparr>))"
    by simp
qed

text \<open>
  Claim C37. After the loop the pending exchange is always off, because the last bit processed is
  bit 0 of the clamped scalar, which is 0; the code exchanges the two points nevertheless, so the
  result is taken from \<open>x3\<close> and \<open>z3\<close>, the point next to the wanted one in a correct ladder.
\<close>

theorem final_exchange_is_wrong_way:
  assumes "length scalar = 32"
  shows "lad_swap (ladder_loop (curve25519_ref10_clamp_scalar scalar) (fe_frombytes point)) = 0 \<and>
     montgomery_ladder scalar point =
       fe_tobytes (fe_mul (lad_x3 (ladder_loop (curve25519_ref10_clamp_scalar scalar) (fe_frombytes point)))
         (fe_invert (lad_z3 (ladder_loop (curve25519_ref10_clamp_scalar scalar) (fe_frombytes point)))))"
proof
  let ?e = "curve25519_ref10_clamp_scalar scalar"
  have "?e ! 0 = scalar ! 0 AND 248"
    using assms by (simp add: clamp_nth)
  then have "(?e ! 0) AND 1 = 0"
    unfolding byte_masks by (auto intro!: bit_word_eqI simp: bit_simps)
  then have "scalar_bit ?e 0 = 0"
    by (simp add: scalar_bit_def)
  then show "lad_swap (ladder_loop ?e (fe_frombytes point)) = 0"
    using ladder_loop_last [of ?e "fe_frombytes point"] by auto
qed (use assms in \<open>simp add: montgomery_ladder_def ladder_exchange_def Let_def\<close>)

theorem final_exchange_is_wrong_way_witness:
  "lad_swap (ladder_loop (curve25519_ref10_clamp_scalar (replicate 32 255)) (fe_frombytes basepoint)) = 0"
  using final_exchange_is_wrong_way [of "replicate 32 255" basepoint] by simp

text \<open>
  The conversion to bytes on an element with one non-negative limb: below \<open>2^25\<close> it writes
  the little-endian number, and at \<open>2^25\<close>, a legal limb of a reduced element, the rounding carry
  leaves a negative limb behind whose sign bits fill the following bytes.
\<close>

lemma fe_tobytes_one_limb:
  "(\<forall>x. unat x < 2 ^ 25 \<longrightarrow> fe_tobytes (small_fe x) = le32 x @ replicate 28 0) \<and>
   fe_tobytes (small_fe (2 ^ 25)) \<noteq> le32 (2 ^ 25) @ replicate 28 0"
proof (intro conjI allI impI)
  fix x :: i32
  assume x: "unat x < 2 ^ 25"
  then show "fe_tobytes (small_fe x) = le32 x @ replicate 28 0"
    by (simp only: fe_tobytes_small small_limbs_one fe_tobytes_pack_one)
next
  have copy: "fe_copy (small_fe (2 ^ 25)) = small_fe (2 ^ 25)"
    by (simp add: fe_copy_def small_fe_def upt_rec)
  have q: "fe_tobytes_q (small_fe (2 ^ 25)) = 0"
    unfolding fe_tobytes_q_def Let_def by (simp add: small_fe_def)
  have carries: "fe_tobytes_carries (small_fe (2 ^ 25)) = [- (2 ^ 25), 1, 0, 0, 0, 0, 0, 0, 0, 0]"
    unfolding fe_tobytes_carries_def Let_def by (simp add: small_fe_def carry_def)
  have "(small_fe (2 ^ 25))[9 := small_fe (2 ^ 25) ! 9 + push_bit 25 0] = small_fe (2 ^ 25)"
    by (simp add: small_fe_def)
  then have "fe_tobytes (small_fe (2 ^ 25)) ! 3 = 0xFE"
    unfolding fe_tobytes_def Let_def copy q by (simp only: carries) (simp add: fe_tobytes_pack_def)
  then show "fe_tobytes (small_fe (2 ^ 25)) \<noteq> le32 (2 ^ 25) @ replicate 28 0"
    by (auto simp: le32_def)
qed

end
