(* ===== verification/App_Crypto.thy ===== *)
theory App_Crypto
  imports Zephyr Prng Hex_Codec Safe_Memory Simple_Aes Curve25519 App_Config
begin

text \<open>
  \<open>src/app_crypto.c\<close> without its initialisation: the file-scope variables, the hexadecimal helpers,
  the pseudo-random generator, initialisation vectors, counter mode over the AES of \<open>Simple_Aes\<close>,
  and the MAC of a sample. (\<open>app_crypto_init\<close> and \<open>derive_session_material\<close> call the persistence layer,
  which calls back into this file; they are in \<open>Crypto_Init\<close>.) The state is an extension of the
  shared record, so every later component sees these variables. An output buffer is a result; the
  result is \<open>None\<close> when the function returns without having written it.
\<close>

section \<open>State\<close>

definition APP_CRYPTO_MAX_KEY_BYTES :: nat where
  "APP_CRYPTO_MAX_KEY_BYTES = 32"

definition APP_CRYPTO_MAX_HEX_CHARS :: nat where
  "APP_CRYPTO_MAX_HEX_CHARS = APP_CRYPTO_MAX_KEY_BYTES * 2"

datatype app_crypto_backend_type =
    APP_CRYPTO_BACKEND_TYPE_NONE
  | APP_CRYPTO_BACKEND_TYPE_AES
  | APP_CRYPTO_BACKEND_TYPE_CURVE25519

record 'h crypto = "'h mcu" +
  key_buf :: "u8 list"
  key_len :: nat
  iv_seed :: "u8 list"
  crypto_ready :: bool
  iv_counter :: u32
  prng_state :: u32
  aes_ctx :: simple_aes_ctx
  session_mac_key :: "u8 list"
  session_counter :: u32
  session_salt :: u32
  active_backend :: app_crypto_backend_type

lemma emit_crypto [simp]:
  "key_buf (emit e s) = key_buf s"
  "key_len (emit e s) = key_len s"
  "iv_seed (emit e s) = iv_seed s"
  "crypto_ready (emit e s) = crypto_ready s"
  "iv_counter (emit e s) = iv_counter s"
  "prng_state (emit e s) = prng_state s"
  "aes_ctx (emit e s) = aes_ctx s"
  "session_mac_key (emit e s) = session_mac_key s"
  "session_counter (emit e s) = session_counter s"
  "session_salt (emit e s) = session_salt s"
  "active_backend (emit e s) = active_backend s"
  by (simp_all add: emit_def)

lemma msleep_crypto [simp]:
  "key_buf (msleep z n s) = key_buf s"
  "key_len (msleep z n s) = key_len s"
  "iv_seed (msleep z n s) = iv_seed s"
  "crypto_ready (msleep z n s) = crypto_ready s"
  "iv_counter (msleep z n s) = iv_counter s"
  "prng_state (msleep z n s) = prng_state s"
  "aes_ctx (msleep z n s) = aes_ctx s"
  "session_mac_key (msleep z n s) = session_mac_key s"
  "session_counter (msleep z n s) = session_counter s"
  "session_salt (msleep z n s) = session_salt s"
  "active_backend (msleep z n s) = active_backend s"
  by (simp_all add: msleep_def)

section \<open>Hexadecimal\<close>

definition hex_value :: "char \<Rightarrow> int" where
  "hex_value c = (let n = (of_char c :: int) in
     if 48 \<le> n \<and> n \<le> 57 then n - 48
     else if 97 \<le> n \<and> n \<le> 102 then 10 + (n - 97)
     else if 65 \<le> n \<and> n \<le> 70 then 10 + (n - 65)
     else -1)"

text \<open>The return code and the bytes that have been written to \<open>out\<close>.\<close>

definition parse_hex_string :: "string \<Rightarrow> nat \<Rightarrow> rc \<times> u8 list" where
  "parse_hex_string hex max_len =
     (let len = safe_strlen hex (APP_CRYPTO_MAX_HEX_CHARS + 1)
      in if len mod 2 \<noteq> 0 then (- EINVAL, [])
         else let bytes = len div 2
         in if bytes = 0 \<or> max_len < bytes then (- EOVERFLOW, [])
         else let (out, ok) = hex_decode_loop hex_value (take (bytes * 2) hex)
         in if ok then (int bytes, out) else (- EINVAL, out))"

definition app_crypto_bytes_to_hex :: "u8 list \<Rightarrow> nat \<Rightarrow> rc \<times> string option" where
  "app_crypto_bytes_to_hex src dst_len =
     (if dst_len < length src * 2 + 1 then (- ENOSPC, None)
      else (0, Some (hex_encode hex_chars src)))"

section \<open>Pseudo-random numbers and initialisation vectors\<close>

definition next_pseudo_entropy :: "('h, 'z) crypto_scheme \<Rightarrow> u32 \<times> ('h, 'z) crypto_scheme" where
  "next_pseudo_entropy s =
     (let nxt = lcg (prng_state s) in (xorshift nxt, s\<lparr>prng_state := nxt\<rparr>))"

text \<open>The first loop of \<open>generate_iv\<close>, from \<open>offset\<close> on: the bytes it writes.\<close>

function iv_random_loop :: "nat \<Rightarrow> ('h, 'z) crypto_scheme \<Rightarrow> u8 list \<times> ('h, 'z) crypto_scheme" where
  "iv_random_loop offset s =
     (if offset < APP_CRYPTO_IV_LEN
      then let (rnd, s) = next_pseudo_entropy s;
               chunk = min 4 (APP_CRYPTO_IV_LEN - offset);
               (rest, s) = iv_random_loop (offset + 4) s
           in (take chunk (le32 rnd) @ rest, s)
      else ([], s))"
  by pat_completeness auto
termination
  by (relation "measure (\<lambda>(offset, s). APP_CRYPTO_IV_LEN - offset)") auto

declare iv_random_loop.simps [simp del]

definition iv_mix_counter :: "u32 \<Rightarrow> u8 list \<Rightarrow> u8 list" where
  "iv_mix_counter ctr iv =
     fold (\<lambda>i iv. let idx = APP_CRYPTO_IV_LEN - 1 - i
                  in iv[idx := iv ! idx XOR ucast (drop_bit (i * 8) ctr)]) [0..<4] iv"

definition generate_iv :: "('h, 'z) crypto_scheme \<Rightarrow> u8 list \<times> ('h, 'z) crypto_scheme" where
  "generate_iv s =
     (let (rnd, s) = iv_random_loop 0 s;
          iv = map (\<lambda>i. rnd ! i XOR iv_seed s ! i) [0..<APP_CRYPTO_IV_LEN];
          ctr = iv_counter s
      in (iv_mix_counter ctr iv, s\<lparr>iv_counter := ctr + 1\<rparr>))"

definition fallback_session_salt :: "'h zephyr \<Rightarrow> ('h, 'z) crypto_scheme \<Rightarrow> u32 \<times> ('h, 'z) crypto_scheme" where
  "fallback_session_salt z s =
     (let (seed, s) = next_pseudo_entropy s
      in (if seed = 0 then k_cycle_get_32 z (hw s) else seed, s))"

section \<open>Encryption\<close>

definition ctr_process :: "simple_aes_ctx \<Rightarrow> u8 list \<Rightarrow> u8 list \<Rightarrow> u8 list" where
  "ctr_process ctx input iv =
     ctr_loop (simple_aes_encrypt_block ctx)
       (take APP_CRYPTO_IV_LEN iv @ replicate (APP_CRYPTO_AES_BLOCK_BYTES - APP_CRYPTO_IV_LEN) 0) input"

definition app_crypto_is_enabled :: "('h, 'z) crypto_scheme \<Rightarrow> bool" where
  "app_crypto_is_enabled s \<longleftrightarrow> crypto_ready s \<and> active_backend s \<noteq> APP_CRYPTO_BACKEND_TYPE_NONE"

definition app_crypto_get_backend :: "('h, 'z) crypto_scheme \<Rightarrow> app_crypto_backend_type" where
  "app_crypto_get_backend s = active_backend s"

definition app_crypto_get_session_counter :: "('h, 'z) crypto_scheme \<Rightarrow> u32" where
  "app_crypto_get_session_counter s = session_counter s"

definition app_crypto_get_session_salt :: "('h, 'z) crypto_scheme \<Rightarrow> u32" where
  "app_crypto_get_session_salt s = session_salt s"

text \<open>The result buffers are the ciphertext (whose length is \<open>*cipher_len\<close>) and the IV.\<close>

definition app_crypto_encrypt_buffer ::
    "u8 list \<Rightarrow> nat \<Rightarrow> ('h, 'z) crypto_scheme \<Rightarrow> rc \<times> (u8 list \<times> u8 list) option \<times> ('h, 'z) crypto_scheme" where
  "app_crypto_encrypt_buffer input cipher_capacity s =
     (if \<not> app_crypto_is_enabled s then (- EACCES, None, s)
      else if length input = 0 then (- EINVAL, None, s)
      else if cipher_capacity < length input then (- ENOSPC, None, s)
      else let (iv, s) = generate_iv s
           in (0, Some (ctr_process (aes_ctx s) input iv, iv), s))"

definition app_crypto_decrypt_buffer ::
    "u8 list \<Rightarrow> u8 list \<Rightarrow> nat \<Rightarrow> ('h, 'z) crypto_scheme \<Rightarrow> rc \<times> u8 list option" where
  "app_crypto_decrypt_buffer cipher iv plain_capacity s =
     (if \<not> app_crypto_is_enabled s then (- EACCES, None)
      else if length cipher = 0 then (- EINVAL, None)
      else if plain_capacity < length cipher then (- ENOSPC, None)
      else (0, Some (ctr_process (aes_ctx s) cipher iv)))"

section \<open>The MAC of a sample\<close>

definition app_crypto_compute_sample_mac ::
    "'h zephyr \<Rightarrow> u8 list \<Rightarrow> u8 list \<Rightarrow> ('h, 'z) crypto_scheme \<Rightarrow> u32" where
  "app_crypto_compute_sample_mac z iv cipher s =
     (if active_backend s \<noteq> APP_CRYPTO_BACKEND_TYPE_CURVE25519 \<or> \<not> crypto_ready s then 0
      else let crc = crc32_ieee z (session_mac_key s);
               crc = crc32_ieee_update z crc iv;
               crc = crc32_ieee_update z crc cipher;
               crc = crc32_ieee_update z crc (le32 (session_counter s))
           in crc XOR session_salt s)"

text \<open>
  The two loops of \<open>derive_session_material\<close>: the session key and the MAC key from the shared secret,
  the counter and the salt.
\<close>

definition session_key_bytes :: "u8 list \<Rightarrow> u32 \<Rightarrow> u32 \<Rightarrow> u8 list" where
  "session_key_bytes shared counter salt =
     map (\<lambda>i. let ctr = ucast (drop_bit (i mod 4 * 8) counter);
                  saltb = ucast (drop_bit ((i + 1) mod 4 * 8) salt)
              in shared ! (i mod length shared) XOR ctr XOR saltb) [0..<APP_CRYPTO_MAX_KEY_BYTES]"

definition session_mac_bytes :: "u8 list \<Rightarrow> u32 \<Rightarrow> u32 \<Rightarrow> u8 list" where
  "session_mac_bytes shared counter salt =
     map (\<lambda>i. let ctr = ucast (drop_bit ((i + 2) mod 4 * 8) counter);
                  saltb = ucast (drop_bit ((i + 3) mod 4 * 8) salt)
              in shared ! ((i + 8) mod length shared) XOR ctr XOR saltb) [0..<16]"

section \<open>The digit function of this file\<close>

interpretation app_hex: hex_digits hex_value
  by (rule hex_digits_by_ranges) (simp add: hex_value_def)

section \<open>Initialisation vectors\<close>

lemma iv_random_loop_0:
  "iv_random_loop 0 s =
     (le32 (xorshift (lcg (prng_state s))) @ le32 (xorshift (lcg (lcg (prng_state s))))
        @ le32 (xorshift (lcg (lcg (lcg (prng_state s))))),
      s\<lparr>prng_state := lcg (lcg (lcg (prng_state s)))\<rparr>)"
  by (simp add: iv_random_loop.simps next_pseudo_entropy_def Let_def)

lemma length_iv_mix_counter [simp]: "length (iv_mix_counter ctr iv) = length iv"
  by (simp add: iv_mix_counter_def Let_def numeral_eq_Suc)

lemma iv_mix_counter_nth:
  "k < 8 \<Longrightarrow> iv_mix_counter ctr iv ! k = iv ! k"
  by (simp add: iv_mix_counter_def Let_def upt_0_4)

lemma generate_iv_state:
  "snd (generate_iv s) = s\<lparr>prng_state := lcg (lcg (lcg (prng_state s))), iv_counter := iv_counter s + 1\<rparr>"
  by (simp add: generate_iv_def iv_random_loop_0 Let_def)

lemma length_generate_iv [simp]: "length (fst (generate_iv s)) = 12"
  by (simp add: generate_iv_def iv_random_loop_0 Let_def)

lemma generate_iv_nth:
  "k < 4 \<Longrightarrow> fst (generate_iv s) ! k = le32 (xorshift (lcg (prng_state s))) ! k XOR iv_seed s ! k"
  by (simp add: generate_iv_def iv_random_loop_0 Let_def iv_mix_counter_nth nth_append)

text \<open>The IV of the encryption after the next \<open>n\<close>.\<close>

definition iv_after :: "nat \<Rightarrow> ('h, 'z) crypto_scheme \<Rightarrow> u8 list" where
  "iv_after n s = fst (generate_iv (((\<lambda>s. snd (generate_iv s)) ^^ n) s))"

lemma states_after:
  "prng_state (((\<lambda>s. snd (generate_iv s)) ^^ n) s) = (lcg ^^ (3 * n)) (prng_state s) \<and>
   iv_seed (((\<lambda>s. snd (generate_iv s)) ^^ n) s) = iv_seed s"
  by (induction n) (simp_all add: generate_iv_state numeral_eq_Suc)

lemma length_iv_after [simp]: "length (iv_after n s) = 12"
  by (simp add: iv_after_def)

lemma iv_after_nth:
  "k < 4 \<Longrightarrow> iv_after n s ! k = le32 (xorshift ((lcg ^^ (3 * n + 1)) (prng_state s))) ! k XOR iv_seed s ! k"
  unfolding iv_after_def by (simp add: generate_iv_nth states_after)

lemma iv_after_distinct:
  assumes "m < n" "n < m + 2 ^ 32"
  shows "iv_after m s \<noteq> iv_after n s"
proof
  let ?w = "\<lambda>n. xorshift ((lcg ^^ (3 * n + 1)) (prng_state s))"
  assume eq: "iv_after m s = iv_after n s"
  have "le32 (?w m) ! k = le32 (?w n) ! k" if "k < 4" for k
  proof -
    have "le32 (?w m) ! k XOR iv_seed s ! k = le32 (?w n) ! k XOR iv_seed s ! k"
      unfolding iv_after_nth [OF that, symmetric] eq ..
    then show ?thesis
      by (simp only: xor_right_eq)
  qed
  then have "le32 (?w m) = le32 (?w n)"
    by (intro nth_equalityI) simp_all
  then have "(lcg ^^ (3 * m + 1)) (prng_state s) = (lcg ^^ (3 * n + 1)) (prng_state s)"
    by (simp only: le32_inject xorshift_inj)
  then have "2 ^ 32 dvd (3 * n + 1) - (3 * m + 1)"
    by (rule lcg_injective) (use assms in linarith)
  moreover have "(3 * n + 1) - (3 * m + 1) = 3 * (n - m)"
    by simp
  moreover have "coprime (2 ^ 32) (3 :: nat)"
    unfolding coprime_power_left_iff coprime_left_2_iff_odd by simp
  ultimately have "2 ^ 32 dvd n - m"
    by (metis coprime_dvd_mult_right_iff)
  then have "2 ^ 32 \<le> n - m"
    by (rule dvd_imp_le) (use assms(1) in linarith)
  with assms(2) show False
    by simp
qed

section \<open>Counter mode\<close>

lemma ctr_process_eq: "length iv = 12 \<Longrightarrow> ctr_process ctx input iv = ctr_loop (simple_aes_encrypt_block ctx) (iv @ be32 0) input"
  by (simp add: ctr_process_def be32_0 numeral_eq_Suc)

lemma length_ctr_process [simp]: "length (ctr_process ctx input iv) = length input"
  by (simp add: ctr_process_def)

lemma ctr_process_involution:
  "length iv = 12 \<Longrightarrow> ctr_process ctx (ctr_process ctx input iv) iv = input"
  by (simp only: ctr_process_eq aes.ctr_involution)

lemma ctr_process_nth:
  "length iv = 12 \<Longrightarrow> i < length input \<Longrightarrow>
     ctr_process ctx input iv ! i = input ! i XOR keystream_byte (simple_aes_encrypt_block ctx) iv i"
  by (simp add: ctr_process_eq ctr_loop_nth)

lemma encrypt_success:
  assumes "app_crypto_is_enabled s" "input \<noteq> []" "length input \<le> cap"
  shows "app_crypto_encrypt_buffer input cap s =
     (0, Some (ctr_process (aes_ctx s) input (fst (generate_iv s)), fst (generate_iv s)), snd (generate_iv s))"
proof -
  have "aes_ctx (snd (generate_iv s)) = aes_ctx s"
    by (simp add: generate_iv_state)
  then show ?thesis
    using assms by (simp add: app_crypto_encrypt_buffer_def case_prod_beta Let_def)
qed

section \<open>The contract the persistence layer relies on\<close>

text \<open>
  Sealing a buffer and opening it again: what a client may assume of the two calls. \<open>same_key t s\<close>
  says that state \<open>t\<close> can open what state \<open>s\<close> sealed. A client stores the IV and the ciphertext
  one after the other; \<open>open_stored\<close> is the fact it needs about that layout.
\<close>

locale sealed_box =
  fixes enabled :: "'s \<Rightarrow> bool"
    and seal :: "u8 list \<Rightarrow> nat \<Rightarrow> 's \<Rightarrow> rc \<times> (u8 list \<times> u8 list) option \<times> 's"
    and unseal :: "u8 list \<Rightarrow> u8 list \<Rightarrow> nat \<Rightarrow> 's \<Rightarrow> rc \<times> u8 list option"
    and same_key :: "'s \<Rightarrow> 's \<Rightarrow> bool"
  assumes seal_succeeds: "enabled s \<Longrightarrow> bs \<noteq> [] \<Longrightarrow> length bs \<le> cap \<Longrightarrow>
      \<exists>cipher iv s'. seal bs cap s = (0, Some (cipher, iv), s') \<and> length cipher = length bs \<and> length iv = 12"
    and unseal_seal: "seal bs cap s = (0, Some (cipher, iv), s') \<Longrightarrow> enabled t \<Longrightarrow> same_key t s \<Longrightarrow>
      length bs \<le> cap' \<Longrightarrow> unseal cipher iv cap' t = (0, Some bs)"
begin

lemma open_stored:
  assumes "enabled s" "length bs = 20"
  obtains cipher iv s' where "seal bs 20 s = (0, Some (cipher, iv), s')" "length cipher = 20" "length iv = 12"
    "\<And>t. enabled t \<Longrightarrow> same_key t s \<Longrightarrow>
       unseal (drop 12 (iv @ cipher)) (take 12 (iv @ cipher)) 20 t = (0, Some bs)"
proof -
  have "bs \<noteq> []"
    using assms(2) by auto
  then obtain cipher iv s' where seal: "seal bs 20 s = (0, Some (cipher, iv), s')"
    and len: "length cipher = length bs" "length iv = 12"
    using seal_succeeds [OF assms(1), of bs 20] assms(2) by auto
  from len assms(2) have "drop 12 (iv @ cipher) = cipher" "take 12 (iv @ cipher) = iv"
    by simp_all
  with seal len assms(2) show ?thesis
    by (intro that [of cipher iv s']) (auto intro: unseal_seal)
qed

end

lemma decrypt_of_encrypt:
  assumes "app_crypto_encrypt_buffer input cap s = (0, Some (cipher, iv), s')"
    and "app_crypto_is_enabled t" "aes_ctx t = aes_ctx s" "length input \<le> cap'"
  shows "app_crypto_decrypt_buffer cipher iv cap' t = (0, Some input)"
proof -
  have "app_crypto_is_enabled s" "input \<noteq> []" "length input \<le> cap"
    using assms(1) by (auto simp: app_crypto_encrypt_buffer_def split: if_splits)
  from encrypt_success [OF this] assms(1)
  have c: "cipher = ctr_process (aes_ctx s) input (fst (generate_iv s))" "iv = fst (generate_iv s)"
    by simp_all
  have "length cipher = length input" "length cipher \<noteq> 0"
    using \<open>input \<noteq> []\<close> by (simp_all add: c(1))
  moreover have "ctr_process (aes_ctx t) cipher iv = input"
    unfolding assms(3) c by (rule ctr_process_involution) simp
  ultimately show ?thesis
    using assms(2,4) by (simp add: app_crypto_decrypt_buffer_def)
qed

interpretation crypto: sealed_box app_crypto_is_enabled app_crypto_encrypt_buffer app_crypto_decrypt_buffer
    "\<lambda>t s. aes_ctx t = aes_ctx s"
  by unfold_locales (auto simp: encrypt_success intro: decrypt_of_encrypt)

text \<open>What an encryption changes in the state: the generator and the IV counter.\<close>

lemma encrypt_frame:
  "snd (snd (app_crypto_encrypt_buffer input cap s)) = s \<or>
   snd (snd (app_crypto_encrypt_buffer input cap s)) =
     s\<lparr>prng_state := lcg (lcg (lcg (prng_state s))), iv_counter := iv_counter s + 1\<rparr>"
  by (simp add: app_crypto_encrypt_buffer_def case_prod_beta Let_def generate_iv_state)

section \<open>Session keys\<close>

lemma length_session_bytes [simp]:
  "length (session_key_bytes shared c t) = 32" "length (session_mac_bytes shared c t) = 16"
  by (simp_all add: session_key_bytes_def session_mac_bytes_def APP_CRYPTO_MAX_KEY_BYTES_def)

lemma le32_nth: "k < 4 \<Longrightarrow> le32 w ! k = ucast (drop_bit (k * 8) w)"
proof -
  assume "k < 4"
  then have "k \<in> {0, 1, 2, 3}"
    by auto
  then show ?thesis
    by (elim insertE) (simp_all add: le32_def)
qed

lemma session_key_nth:
  "i < 32 \<Longrightarrow> session_key_bytes shared c t ! i =
     shared ! (i mod length shared) XOR le32 c ! (i mod 4) XOR le32 t ! ((i + 1) mod 4)"
  by (simp add: session_key_bytes_def le32_nth Let_def APP_CRYPTO_MAX_KEY_BYTES_def)

lemma session_key_counter_inj:
  assumes "session_key_bytes shared c t = session_key_bytes shared c' t"
  shows "c = c'"
proof -
  have "le32 c ! k = le32 c' ! k" if "k < 4" for k
  proof -
    have "session_key_bytes shared c t ! k = session_key_bytes shared c' t ! k"
      by (simp only: assms)
    moreover have "k mod 4 = k"
      using that by simp
    ultimately have "(shared ! (k mod length shared) XOR le32 c ! k) XOR le32 t ! ((k + 1) mod 4) =
        (shared ! (k mod length shared) XOR le32 c' ! k) XOR le32 t ! ((k + 1) mod 4)"
      using that by (simp only: session_key_nth less_trans [OF that] xor.assoc)
    then have "shared ! (k mod length shared) XOR le32 c ! k = shared ! (k mod length shared) XOR le32 c' ! k"
      by (simp only: xor_right_eq)
    then show ?thesis
      by (simp only: xor.commute [of "shared ! (k mod length shared)"] xor_right_eq)
  qed
  then have "le32 c = le32 c'"
    by (intro nth_equalityI) simp_all
  then show ?thesis
    by simp
qed

section \<open>Hexadecimal round trip\<close>

lemma parse_hex_eq:
  assumes "length hex = 2 * n" "0 < n" "n \<le> max_len" "n \<le> 32"
  shows "parse_hex_string hex max_len =
     (case hex_decode_loop hex_value hex of (out, ok) \<Rightarrow> if ok then (int n, out) else (- EINVAL, out))"
  using assms
  by (simp add: parse_hex_string_def safe_strlen_eq APP_CRYPTO_MAX_HEX_CHARS_def APP_CRYPTO_MAX_KEY_BYTES_def Let_def)

lemma parse_printed_hex:
  assumes "0 < length bs" "length bs \<le> max_len" "length bs \<le> 32"
  shows "parse_hex_string (hex_encode hex_chars bs) max_len = (int (length bs), bs)"
  using assms by (simp add: parse_hex_eq [of _ "length bs"] app_hex.decode_encode)

section \<open>Properties\<close>

text \<open>
  Claim C11. Decryption undoes encryption: what \<open>app_crypto_encrypt_buffer\<close> returned, handed to
  \<open>app_crypto_decrypt_buffer\<close> in any later state with the same AES key schedule, gives the input back,
  for inputs of every length up to the capacity of the output buffer.
\<close>

theorem encrypt_decrypt_roundtrip:
  fixes s t :: "('h, 'z) crypto_scheme"
  assumes "app_crypto_encrypt_buffer input cap s = (0, Some (cipher, iv), s')"
    and "app_crypto_is_enabled t" "aes_ctx t = aes_ctx s" "length input \<le> cap'"
  shows "app_crypto_decrypt_buffer cipher iv cap' t = (0, Some input)"
  using assms by (rule crypto.unseal_seal)

definition ready_crypto :: "(unit, unit) crypto_scheme" where
  \<comment> \<open>an initialised state, for the witnesses\<close>
  "ready_crypto = \<lparr>hw = (), trace = [], key_buf = replicate 32 7, key_len = 32, iv_seed = replicate 12 3,
     crypto_ready = True, iv_counter = 0, prng_state = 0x6d5a56a1,
     aes_ctx = \<lparr>round_keys = replicate 240 5, rounds = 14\<rparr>, session_mac_key = replicate 16 0,
     session_counter = 1, session_salt = 2, active_backend = APP_CRYPTO_BACKEND_TYPE_AES\<rparr>"

lemma ready_crypto_enabled: "app_crypto_is_enabled ready_crypto" "length (iv_seed ready_crypto) = 12"
  by (simp_all add: app_crypto_is_enabled_def ready_crypto_def)

theorem encrypt_decrypt_roundtrip_witness:
  "\<exists>cipher iv s'. app_crypto_encrypt_buffer [1, 2, 3] 20 ready_crypto = (0, Some (cipher, iv), s') \<and>
     app_crypto_decrypt_buffer cipher iv 20 ready_crypto = (0, Some [1, 2, 3])"
proof -
  have enc: "app_crypto_encrypt_buffer [1, 2, 3] 20 ready_crypto =
      (0, Some (ctr_process (aes_ctx ready_crypto) [1, 2, 3] (fst (generate_iv ready_crypto)),
        fst (generate_iv ready_crypto)), snd (generate_iv ready_crypto))"
    using ready_crypto_enabled by (intro encrypt_success) simp_all
  moreover have "app_crypto_decrypt_buffer (ctr_process (aes_ctx ready_crypto) [1, 2, 3] (fst (generate_iv ready_crypto)))
      (fst (generate_iv ready_crypto)) 20 ready_crypto = (0, Some [1, 2, 3])"
    by (rule encrypt_decrypt_roundtrip [OF enc]) (simp_all add: ready_crypto_enabled)
  ultimately show ?thesis
    by blast
qed

text \<open>
  Claim C9. The ciphertext is textbook counter mode: byte \<open>i\<close> is the plaintext byte xor byte
  \<open>i mod 16\<close> of the AES encryption of \<open>iv || be32 (i div 16)\<close>, where the IV is the one returned, and it
  is as long as the plaintext. The call succeeds exactly when a backend is ready, the input is not
  empty and it fits; otherwise nothing is written and no state changes.
\<close>

theorem encrypt_is_textbook_ctr:
  "(case app_crypto_encrypt_buffer input cap s of (rc, out, s') \<Rightarrow>
     if app_crypto_is_enabled s \<and> input \<noteq> [] \<and> length input \<le> cap
     then \<exists>cipher iv. rc = 0 \<and> out = Some (cipher, iv) \<and> length cipher = length input \<and>
            (\<forall>i<length input. cipher ! i =
               input ! i XOR simple_aes_encrypt_block (aes_ctx s) (iv @ be32 (i div 16)) ! (i mod 16))
     else rc < 0 \<and> out = None \<and> s' = s)"
proof (cases "app_crypto_is_enabled s \<and> input \<noteq> [] \<and> length input \<le> cap")
  case True
  then show ?thesis
    by (simp add: encrypt_success ctr_process_nth keystream_byte_def)
next
  case False
  then show ?thesis
    by (auto simp: app_crypto_encrypt_buffer_def)
qed

theorem encrypt_is_textbook_ctr_witness:
  "\<exists>cipher iv s'. app_crypto_encrypt_buffer [1] 20 ready_crypto = (0, Some (cipher, iv), s') \<and>
     cipher ! 0 = 1 XOR simple_aes_encrypt_block (aes_ctx ready_crypto) (iv @ be32 0) ! 0"
  using encrypt_is_textbook_ctr [where input = "[1]" and cap = 20 and s = ready_crypto] ready_crypto_enabled
  by (auto split: prod.splits)

text \<open>
  Claim C4. Within one boot no AES keystream block is ever used twice: the IVs of the first \<open>2^32\<close>
  encryptions are pairwise different (the generator behind them has full period and its output mix
  is injective), so the counter blocks, and hence the encrypted blocks, of any two of them differ, for
  all \<open>2^32\<close> block numbers.
\<close>

theorem keystream_never_reused:
  assumes "length (iv_seed s) = APP_CRYPTO_IV_LEN" "m < n" "n < m + 2 ^ 32" "a < 2 ^ 32" "b < 2 ^ 32"
  shows "iv_after m s \<noteq> iv_after n s \<and>
     simple_aes_encrypt_block ctx (iv_after m s @ be32 a) \<noteq> simple_aes_encrypt_block ctx (iv_after n s @ be32 b)"
proof
  show iv: "iv_after m s \<noteq> iv_after n s"
    by (rule iv_after_distinct) (fact assms(2,3))+
  show "simple_aes_encrypt_block ctx (iv_after m s @ be32 a) \<noteq> simple_aes_encrypt_block ctx (iv_after n s @ be32 b)"
    by (rule aes.keystream_blocks_distinct) (use iv assms(4,5) in simp_all)
qed

theorem keystream_never_reused_witness:
  "iv_after 0 ready_crypto \<noteq> iv_after 1000000 ready_crypto"
  using keystream_never_reused [of ready_crypto 0 1000000 0 0 "aes_ctx ready_crypto"] ready_crypto_enabled by simp

text \<open>
  Hexadecimal round trip: what \<open>app_crypto_bytes_to_hex\<close> prints for 1 to 32 bytes,
  \<open>parse_hex_string\<close> reads back, as it does the lower-case spelling, returning the number of bytes; a
  string of even length with a character that is no hexadecimal digit is refused.
\<close>

lemma hex_roundtrip:
  assumes "0 < length bs" "length bs \<le> max_len" "length bs \<le> 32" "2 * length bs < dst_len"
  shows "(\<exists>hex. app_crypto_bytes_to_hex bs dst_len = (0, Some hex) \<and>
       parse_hex_string hex max_len = (int (length bs), bs)) \<and>
     parse_hex_string (hex_encode hex_chars_lower bs) max_len = (int (length bs), bs) \<and>
     (\<forall>hex. length hex = 2 * length bs \<longrightarrow> \<not> set hex \<subseteq> set hex_chars \<union> set hex_chars_lower \<longrightarrow>
        fst (parse_hex_string hex max_len) < 0)"
proof (intro conjI allI impI)
  show "\<exists>hex. app_crypto_bytes_to_hex bs dst_len = (0, Some hex) \<and>
       parse_hex_string hex max_len = (int (length bs), bs)"
    using assms by (simp add: app_crypto_bytes_to_hex_def parse_printed_hex)
  show "parse_hex_string (hex_encode hex_chars_lower bs) max_len = (int (length bs), bs)"
    using assms by (simp add: parse_hex_eq [of _ "length bs"] app_hex.decode_encode_lower)
next
  fix hex :: string
  assume len: "length hex = 2 * length bs" and "\<not> set hex \<subseteq> set hex_chars \<union> set hex_chars_lower"
  then obtain c where "c \<in> set hex" "c \<notin> set hex_chars" "c \<notin> set hex_chars_lower"
    by blast
  then have "\<not> hex_ok hex_value hex"
    using app_hex.reject_non_digit [of c hex] len by simp
  then show "fst (parse_hex_string hex max_len) < 0"
    using assms len by (simp add: parse_hex_eq [of _ "length bs"] hex_ok_def case_prod_beta)
qed

end
