(* ===== verification/Persist_State.thy ===== *)
theory Persist_State
  imports App_Crypto
begin

text \<open>
  \<open>src/persist_state.c\<close>: the reset counters, the watchdog override and the session counter, kept in one
  NVS record, and the provisioned Curve25519 secret and peer key in two more. The file-scope
  variable \<open>g_state\<close> is three fields of the state; \<open>k_mutex_lock\<close> and \<open>k_mutex_unlock\<close> bracket each
  operation, so an operation is one step. The record is stored in the clear as long as the crypto
  component is not ready, and encrypted (IV followed by ciphertext) afterwards.
\<close>

section \<open>Records and their memory images\<close>

definition PERSIST_MAGIC :: u32 where
  "PERSIST_MAGIC = 0x4C454453"

definition PERSIST_RECORD_ID :: nat where
  "PERSIST_RECORD_ID = 1"

definition PERSIST_CURVE_SECRET_ID :: nat where
  "PERSIST_CURVE_SECRET_ID = 2"

definition PERSIST_CURVE_SECRET_MAGIC :: u32 where
  "PERSIST_CURVE_SECRET_MAGIC = 0x43555256"

definition PERSIST_CURVE_PEER_ID :: nat where
  "PERSIST_CURVE_PEER_ID = 3"

definition PERSIST_CURVE_PEER_MAGIC :: u32 where
  "PERSIST_CURVE_PEER_MAGIC = 0x43555250"

definition PERSIST_RETRY_LIMIT :: nat where
  "PERSIST_RETRY_LIMIT = 3"

definition PERSIST_RETRY_DELAY_MS :: nat where
  "PERSIST_RETRY_DELAY_MS = 10"

lemmas persist_consts = PERSIST_RECORD_ID_def PERSIST_CURVE_SECRET_ID_def PERSIST_CURVE_PEER_ID_def

record persist_blob =
  magic :: u32
  consecutive_watchdog :: u32
  total_watchdog :: u32
  watchdog_override_ms :: u32
  blob_session_counter :: u32

definition zero_blob :: persist_blob where
  "zero_blob = \<lparr>magic = 0, consecutive_watchdog = 0, total_watchdog = 0, watchdog_override_ms = 0,
     blob_session_counter = 0\<rparr>"

text \<open>\<open>sizeof(struct persist_blob)\<close> is 20, \<open>sizeof(struct persist_blob_encrypted)\<close> is 32.\<close>

definition blob_bytes :: "persist_blob \<Rightarrow> u8 list" where
  "blob_bytes b = le32 (magic b) @ le32 (consecutive_watchdog b) @ le32 (total_watchdog b)
     @ le32 (watchdog_override_ms b) @ le32 (blob_session_counter b)"

definition bytes_blob :: "u8 list \<Rightarrow> persist_blob" where
  "bytes_blob bs = \<lparr>magic = un_le32 bs, consecutive_watchdog = un_le32 (drop 4 bs),
     total_watchdog = un_le32 (drop 8 bs), watchdog_override_ms = un_le32 (drop 12 bs),
     blob_session_counter = un_le32 (drop 16 bs)\<rparr>"

record 'h persist = "'h crypto" +
  g_fs :: nvs_fs
  g_blob :: persist_blob
  g_loaded :: bool

lemma emit_persist [simp]:
  "g_fs (emit e s) = g_fs s" "g_fs (msleep z n s) = g_fs s"
  "g_blob (emit e s) = g_blob s" "g_blob (msleep z n s) = g_blob s"
  "g_loaded (emit e s) = g_loaded s" "g_loaded (msleep z n s) = g_loaded s"
  by (simp_all add: emit_def msleep_def)

definition zero_fs :: nvs_fs where
  "zero_fs = \<lparr>flash_device = Flash_Dev 0, fs_offset = 0, sector_size = 0, sector_count = 0\<rparr>"

section \<open>The Curve25519 scalar\<close>

definition hex_nibble :: "char \<Rightarrow> int" where
  "hex_nibble c = (let n = (of_char c :: int) in
     if 48 \<le> n \<and> n \<le> 57 then n - 48
     else if 97 \<le> n \<and> n \<le> 102 then 10 + (n - 97)
     else if 65 \<le> n \<and> n \<le> 70 then 10 + (n - 65)
     else -1)"

definition parse_hex_secret :: "string option \<Rightarrow> nat \<Rightarrow> rc \<times> u8 list" where
  "parse_hex_secret hex len =
     (case hex of
        None \<Rightarrow> (- ENOENT, [])
      | Some h \<Rightarrow>
          if h = [] then (- ENOENT, [])
          else if length h \<noteq> len * 2 then (- EINVAL, [])
          else let (out, ok) = hex_decode_loop hex_nibble h
               in if ok then (0, out) else (- EINVAL, out))"

definition derive_scalar_from_device_id :: "'h zephyr \<Rightarrow> app_config \<Rightarrow> 'h \<Rightarrow> u8 list" where
  "derive_scalar_from_device_id z cfg h =
     (let seed = 0x6d5a56a1;
          (len, dev_id) = (if HWINFO cfg then hwinfo_get_device_id z 16 h else (- ENOSYS, []));
          seed = (if HWINFO cfg \<and> 0 < len
                  then fold (\<lambda>i seed. lcg (seed XOR push_bit (i mod 4 * 8) (ucast (dev_id ! i)))) [0..<nat len] seed
                  else seed);
          seed = (if len \<le> 0 then seed XOR 0xC3A5C85C else seed)
      in concat (map (\<lambda>i. le32 ((lcg ^^ Suc i) seed)) [0..<CURVE25519_KEY_SIZE div 4]))"

definition curve_secret_generate :: "'h zephyr \<Rightarrow> app_config \<Rightarrow> 'h \<Rightarrow> rc \<times> u8 list" where
  "curve_secret_generate z cfg h =
     (let (rc, secret) = parse_hex_secret (Some (APP_CURVE25519_STATIC_SECRET_HEX cfg)) CURVE25519_KEY_SIZE
      in if rc = 0 then (0, curve25519_ref10_clamp_scalar secret)
         else (0, curve25519_ref10_clamp_scalar (derive_scalar_from_device_id z cfg h)))"

section \<open>Loading and storing the record\<close>

definition persist_read_encrypted :: "'h zephyr \<Rightarrow> ('h, 'z) persist_scheme \<Rightarrow> rc \<times> persist_blob option" where
  "persist_read_encrypted z s =
     (let (rc, storage) = nvs_read z (g_fs s) PERSIST_RECORD_ID 32 (hw s)
      in if rc = 32 then
           (let (rc, plain) = app_crypto_decrypt_buffer (drop 12 storage) (take 12 storage) 20 s
            in if rc \<noteq> 0 then (rc, None)
               else case plain of
                      None \<Rightarrow> (- EIO, None)
                    | Some p \<Rightarrow> if length p \<noteq> 20 then (- EIO, None) else (0, Some (bytes_blob p)))
         else if rc = 20 then (0, Some (bytes_blob (take 20 storage)))
         else (rc, None))"

definition persist_load_blob :: "'h zephyr \<Rightarrow> app_config \<Rightarrow> ('h, 'z) persist_scheme \<Rightarrow> rc \<times> persist_blob option" where
  "persist_load_blob z cfg s =
     (let plain_read =
        (let (rc, bytes) = nvs_read z (g_fs s) PERSIST_RECORD_ID 20 (hw s)
         in if rc < 0 then (rc, None)
            else if rc = 20 then (0, Some (bytes_blob bytes)) else (- ENOENT, None))
      in if APP_USE_AES_ENCRYPTION cfg \<and> app_crypto_is_enabled s then
           (let (rc, blob) = persist_read_encrypted z s
            in if rc = 0 then (0, blob)
               else if rc < 0 \<and> rc \<noteq> - ENOENT then (rc, None)
               else plain_read)
         else plain_read)"

definition persist_store_blob ::
    "'h zephyr \<Rightarrow> app_config \<Rightarrow> persist_blob \<Rightarrow> ('h, 'z) persist_scheme \<Rightarrow> rc \<times> ('h, 'z) persist_scheme" where
  "persist_store_blob z cfg blob s =
     (if APP_USE_AES_ENCRYPTION cfg \<and> app_crypto_is_enabled s then
        (let (rc, out, s) = app_crypto_encrypt_buffer (blob_bytes blob) 20 s
         in if rc \<noteq> 0 then (rc, s)
            else case out of
                   None \<Rightarrow> (- EIO, s)
                 | Some (cipher, iv) \<Rightarrow>
                     if length cipher \<noteq> 20 then (- EIO, s)
                     else let (rc, h) = nvs_write z (g_fs s) PERSIST_RECORD_ID (iv @ cipher) (hw s)
                          in (rc, s\<lparr>hw := h\<rparr>))
      else let (rc, h) = nvs_write z (g_fs s) PERSIST_RECORD_ID (blob_bytes blob) (hw s)
           in (rc, s\<lparr>hw := h\<rparr>))"

definition persist_commit_locked ::
    "'h zephyr \<Rightarrow> app_config \<Rightarrow> ('h, 'z) persist_scheme \<Rightarrow> rc \<times> ('h, 'z) persist_scheme" where
  "persist_commit_locked z cfg s =
     (let (rc, s) = persist_store_blob z cfg (g_blob s) s
      in if rc < 0 then (rc, emit (LOG_EVT L_ERR ''PERSIST'' ''WRITE_FAIL'' [LNum rc]) s)
         else (0, s))"

section \<open>Bringing up the file system\<close>

text \<open>
  The two retry loops, with \<open>attempt\<close> counting from 1: the last return code, and for the first one
  the flash area that was opened.
\<close>

function flash_open_loop ::
    "'h zephyr \<Rightarrow> nat \<Rightarrow> rc \<Rightarrow> flash_area option \<Rightarrow> ('h, 'z) persist_scheme
       \<Rightarrow> rc \<times> flash_area option \<times> ('h, 'z) persist_scheme" where
  "flash_open_loop z attempt rc fa s =
     (if attempt \<le> PERSIST_RETRY_LIMIT then
        (let (rc, area, h) = flash_area_open z (hw s);
             s = s\<lparr>hw := h\<rparr>
         in if rc = 0 then
              (0, Some area,
               if 1 < attempt then emit (LOG_EVT L_INF ''PERSIST'' ''FLASH_OPEN_RECOVERED'' [LNum (int attempt)]) s
               else s)
            else
              let s = emit (LOG_EVT L_WRN ''PERSIST'' ''FLASH_OPEN_RETRY'' [LNum (int attempt), LNum rc]) s;
                  s = (if attempt < PERSIST_RETRY_LIMIT then msleep z PERSIST_RETRY_DELAY_MS s else s)
              in flash_open_loop z (attempt + 1) rc fa s)
      else (rc, fa, s))"
  by pat_completeness auto
termination
  by (relation "measure (\<lambda>(z, attempt, rc, fa, s). Suc PERSIST_RETRY_LIMIT - attempt)") auto

declare flash_open_loop.simps [simp del]

function nvs_mount_loop ::
    "'h zephyr \<Rightarrow> nat \<Rightarrow> rc \<Rightarrow> ('h, 'z) persist_scheme \<Rightarrow> rc \<times> ('h, 'z) persist_scheme" where
  "nvs_mount_loop z attempt rc s =
     (if attempt \<le> PERSIST_RETRY_LIMIT then
        (let (rc, h) = nvs_mount z (g_fs s) (hw s);
             s = s\<lparr>hw := h\<rparr>
         in if rc = 0 then
              (0, if 1 < attempt then emit (LOG_EVT L_INF ''PERSIST'' ''NVS_MOUNT_RECOVERED'' [LNum (int attempt)]) s
                  else s)
            else
              let s = emit (LOG_EVT L_WRN ''PERSIST'' ''NVS_MOUNT_RETRY'' [LNum (int attempt), LNum rc]) s;
                  s = (if attempt < PERSIST_RETRY_LIMIT then msleep z PERSIST_RETRY_DELAY_MS s else s)
              in nvs_mount_loop z (attempt + 1) rc s)
      else (rc, s))"
  by pat_completeness auto
termination
  by (relation "measure (\<lambda>(z, attempt, rc, s). Suc PERSIST_RETRY_LIMIT - attempt)") auto

declare nvs_mount_loop.simps [simp del]

text \<open>The end of \<open>init_fs_if_needed\<close>: adopt the stored record, or start from and store an empty one.\<close>

definition adopt_blob :: "'h zephyr \<Rightarrow> app_config \<Rightarrow> ('h, 'z) persist_scheme \<Rightarrow> ('h, 'z) persist_scheme" where
  "adopt_blob z cfg s =
     (let (rc, tmp) = persist_load_blob z cfg s;
          s = (case tmp of
                 Some b \<Rightarrow>
                   if rc = 0 \<and> magic b = PERSIST_MAGIC then s\<lparr>g_blob := b\<rparr>
                   else snd (persist_commit_locked z cfg (s\<lparr>g_blob := zero_blob\<lparr>magic := PERSIST_MAGIC\<rparr>\<rparr>))
               | None \<Rightarrow> snd (persist_commit_locked z cfg (s\<lparr>g_blob := zero_blob\<lparr>magic := PERSIST_MAGIC\<rparr>\<rparr>)))
      in s\<lparr>g_loaded := True\<rparr>)"

text \<open>The area is \<open>None\<close> after the first loop exactly when its last return code is not 0.\<close>

definition init_fs_if_needed ::
    "'h zephyr \<Rightarrow> app_config \<Rightarrow> ('h, 'z) persist_scheme \<Rightarrow> rc \<times> ('h, 'z) persist_scheme" where
  "init_fs_if_needed z cfg s =
     (if g_loaded s then (0, s)
      else let (rc, fa, s) = flash_open_loop z 1 0 None s
      in case fa of
           None \<Rightarrow> (rc, emit (LOG_EVT L_ERR ''PERSIST'' ''FLASH_OPEN_FAIL'' [LNum rc]) s)
         | Some fa \<Rightarrow>
      let s = s\<lparr>g_fs := (g_fs s)\<lparr>flash_device := fa_dev fa\<rparr>\<rparr>
      in if \<not> device_is_ready z (flash_device (g_fs s)) (hw s)
         then (- EBUSY, (emit (LOG_EVT L_ERR ''PERSIST'' ''FLASH_NOT_READY'' [LNum (int (STORAGE_PARTITION_ID cfg))]) s)
                 \<lparr>hw := flash_area_close z fa (hw s)\<rparr>)
         else
      let s = s\<lparr>g_fs := (g_fs s)\<lparr>fs_offset := fa_off fa\<rparr>\<rparr>;
          (rc, page_size) = flash_get_page_size z (flash_device (g_fs s)) (fs_offset (g_fs s)) (hw s)
      in if rc \<noteq> 0
         then (rc, (emit (LOG_EVT L_ERR ''PERSIST'' ''FLASH_PAGE_INFO_FAIL'' [LNum rc]) s)
                 \<lparr>hw := flash_area_close z fa (hw s)\<rparr>)
         else
      let s = s\<lparr>g_fs := (g_fs s)\<lparr>sector_size := page_size, sector_count := fa_size fa div page_size\<rparr>,
                hw := flash_area_close z fa (hw s)\<rparr>;
          (rc, s) = nvs_mount_loop z 1 0 s
      in if rc \<noteq> 0 then (rc, emit (LOG_EVT L_ERR ''PERSIST'' ''NVS_MOUNT_FAIL'' [LNum rc]) s)
         else (0, adopt_blob z cfg s))"

section \<open>Operations\<close>

definition persist_state_init ::
    "'h zephyr \<Rightarrow> app_config \<Rightarrow> ('h, 'z) persist_scheme \<Rightarrow> rc \<times> ('h, 'z) persist_scheme" where
  "persist_state_init z cfg s = init_fs_if_needed z cfg s"

definition persist_state_record_boot ::
    "'h zephyr \<Rightarrow> app_config \<Rightarrow> bool \<Rightarrow> ('h, 'z) persist_scheme \<Rightarrow> ('h, 'z) persist_scheme" where
  "persist_state_record_boot z cfg watchdog_reset s =
     (let (rc, s) = init_fs_if_needed z cfg s
      in if rc \<noteq> 0 then s
         else let b = g_blob s;
                  b = (if watchdog_reset
                       then b\<lparr>consecutive_watchdog := consecutive_watchdog b + 1,
                              total_watchdog := total_watchdog b + 1\<rparr>
                       else if consecutive_watchdog b \<noteq> 0 then b\<lparr>consecutive_watchdog := 0\<rparr>
                       else b)
              in snd (persist_commit_locked z cfg (s\<lparr>g_blob := b\<rparr>)))"

definition persist_state_clear_watchdog_counter ::
    "'h zephyr \<Rightarrow> app_config \<Rightarrow> ('h, 'z) persist_scheme \<Rightarrow> ('h, 'z) persist_scheme" where
  "persist_state_clear_watchdog_counter z cfg s =
     (let (rc, s) = init_fs_if_needed z cfg s
      in if rc = 0 \<and> consecutive_watchdog (g_blob s) \<noteq> 0
         then snd (persist_commit_locked z cfg (s\<lparr>g_blob := (g_blob s)\<lparr>consecutive_watchdog := 0\<rparr>\<rparr>))
         else s)"

definition persist_state_get_consecutive_watchdog :: "('h, 'z) persist_scheme \<Rightarrow> u32" where
  "persist_state_get_consecutive_watchdog s = consecutive_watchdog (g_blob s)"

definition persist_state_get_total_watchdog :: "('h, 'z) persist_scheme \<Rightarrow> u32" where
  "persist_state_get_total_watchdog s = total_watchdog (g_blob s)"

definition persist_state_is_fallback_active :: "app_config \<Rightarrow> ('h, 'z) persist_scheme \<Rightarrow> bool" where
  "persist_state_is_fallback_active cfg s \<longleftrightarrow>
     APP_RESET_WATCHDOG_THRESHOLD cfg \<le> persist_state_get_consecutive_watchdog s"

definition persist_state_get_watchdog_override :: "('h, 'z) persist_scheme \<Rightarrow> u32" where
  "persist_state_get_watchdog_override s = watchdog_override_ms (g_blob s)"

definition persist_state_set_watchdog_override ::
    "'h zephyr \<Rightarrow> app_config \<Rightarrow> u32 \<Rightarrow> ('h, 'z) persist_scheme \<Rightarrow> rc \<times> ('h, 'z) persist_scheme" where
  "persist_state_set_watchdog_override z cfg timeout_ms s =
     (let (rc, s) = init_fs_if_needed z cfg s
      in if rc \<noteq> 0 then (- EIO, s)
         else if watchdog_override_ms (g_blob s) \<noteq> timeout_ms
         then persist_commit_locked z cfg (s\<lparr>g_blob := (g_blob s)\<lparr>watchdog_override_ms := timeout_ms\<rparr>\<rparr>)
         else (0, s))"

definition persist_state_next_session_counter ::
    "'h zephyr \<Rightarrow> app_config \<Rightarrow> ('h, 'z) persist_scheme \<Rightarrow> u32 \<times> ('h, 'z) persist_scheme" where
  "persist_state_next_session_counter z cfg s =
     (let (rc, s) = init_fs_if_needed z cfg s
      in if rc = 0
         then let s = s\<lparr>g_blob := (g_blob s)\<lparr>blob_session_counter := blob_session_counter (g_blob s) + 1\<rparr>\<rparr>
              in (blob_session_counter (g_blob s), snd (persist_commit_locked z cfg s))
         else (0, s))"

text \<open>
  The four provisioning calls. The pointer argument of a getter is only tested against \<open>NULL\<close>, so a
  call with a buffer is the case modelled here; its content on success is the second result. In a
  build without the Curve25519 backend all four return \<open>-ENOTSUP\<close>.
\<close>

definition persist_state_curve25519_get_secret ::
    "'h zephyr \<Rightarrow> app_config \<Rightarrow> ('h, 'z) persist_scheme \<Rightarrow> rc \<times> u8 list option \<times> ('h, 'z) persist_scheme" where
  "persist_state_curve25519_get_secret z cfg s =
     (if \<not> APP_CRYPTO_BACKEND_CURVE25519 cfg then (- ENOTSUP, None, s)
      else let (rc, s) = init_fs_if_needed z cfg s
      in if rc \<noteq> 0 then (rc, None, s)
         else let (rc, rec) = nvs_read z (g_fs s) PERSIST_CURVE_SECRET_ID 36 (hw s)
         in if rc = 36 \<and> un_le32 rec = PERSIST_CURVE_SECRET_MAGIC then (0, Some (drop 4 rec), s)
            else let (rc, secret) = curve_secret_generate z cfg (hw s)
            in if rc \<noteq> 0 then (rc, None, s)
               else let (rc, h) = nvs_write z (g_fs s) PERSIST_CURVE_SECRET_ID
                                    (le32 PERSIST_CURVE_SECRET_MAGIC @ secret) (hw s);
                        s = s\<lparr>hw := h\<rparr>
               in if rc < 0 then (rc, None, s) else (0, Some secret, s))"

definition persist_state_curve25519_set_secret ::
    "'h zephyr \<Rightarrow> app_config \<Rightarrow> u8 list option \<Rightarrow> ('h, 'z) persist_scheme \<Rightarrow> rc \<times> ('h, 'z) persist_scheme" where
  "persist_state_curve25519_set_secret z cfg secret s =
     (if \<not> APP_CRYPTO_BACKEND_CURVE25519 cfg then (- ENOTSUP, s)
      else case secret of None \<Rightarrow> (- EINVAL, s)
      | Some sec \<Rightarrow>
          let rec = le32 PERSIST_CURVE_SECRET_MAGIC @ curve25519_ref10_clamp_scalar (take CURVE25519_KEY_SIZE sec);
              (rc, s) = init_fs_if_needed z cfg s
          in if rc = 0
             then let (rc, h) = nvs_write z (g_fs s) PERSIST_CURVE_SECRET_ID rec (hw s)
                  in (if rc < 0 then rc else 0, s\<lparr>hw := h\<rparr>)
             else (rc, s))"

definition persist_state_curve25519_get_peer ::
    "'h zephyr \<Rightarrow> app_config \<Rightarrow> ('h, 'z) persist_scheme \<Rightarrow> rc \<times> u8 list option \<times> ('h, 'z) persist_scheme" where
  "persist_state_curve25519_get_peer z cfg s =
     (if \<not> APP_CRYPTO_BACKEND_CURVE25519 cfg then (- ENOTSUP, None, s)
      else let (rc, s) = init_fs_if_needed z cfg s
      in if rc \<noteq> 0 then (rc, None, s)
         else let (rc, rec) = nvs_read z (g_fs s) PERSIST_CURVE_PEER_ID 36 (hw s)
         in if rc = 36 \<and> un_le32 rec = PERSIST_CURVE_PEER_MAGIC then (0, Some (drop 4 rec), s)
            else (- ENOENT, None, s))"

definition persist_state_curve25519_set_peer ::
    "'h zephyr \<Rightarrow> app_config \<Rightarrow> u8 list option \<Rightarrow> ('h, 'z) persist_scheme \<Rightarrow> rc \<times> ('h, 'z) persist_scheme" where
  "persist_state_curve25519_set_peer z cfg peer s =
     (if \<not> APP_CRYPTO_BACKEND_CURVE25519 cfg then (- ENOTSUP, s)
      else case peer of None \<Rightarrow> (- EINVAL, s)
      | Some p \<Rightarrow>
          let rec = le32 PERSIST_CURVE_PEER_MAGIC @ take CURVE25519_KEY_SIZE p;
              (rc, s) = init_fs_if_needed z cfg s
          in if rc = 0
             then let (rc, h) = nvs_write z (g_fs s) PERSIST_CURVE_PEER_ID rec (hw s)
                  in (if rc < 0 then rc else 0, s\<lparr>hw := h\<rparr>)
             else (rc, s))"

text \<open>The test hooks: a fresh blob, and the two ways of forgetting the state in RAM.\<close>

definition persist_state_test_init_blob :: "u32 \<Rightarrow> u32 \<Rightarrow> u32 \<Rightarrow> persist_blob" where
  "persist_state_test_init_blob cons tot override_ms =
     zero_blob\<lparr>magic := PERSIST_MAGIC, consecutive_watchdog := cons, total_watchdog := tot,
       watchdog_override_ms := override_ms\<rparr>"

definition persist_state_test_reload :: "('h, 'z) persist_scheme \<Rightarrow> ('h, 'z) persist_scheme" where
  "persist_state_test_reload s = s\<lparr>g_fs := zero_fs, g_blob := zero_blob, g_loaded := False\<rparr>"

definition persist_state_test_reset ::
    "'h zephyr \<Rightarrow> app_config \<Rightarrow> ('h, 'z) persist_scheme \<Rightarrow> ('h, 'z) persist_scheme" where
  "persist_state_test_reset z cfg s =
     (let (rc, s) = init_fs_if_needed z cfg s;
          s = (if rc = 0 then s\<lparr>hw := snd (nvs_clear z (g_fs s) (hw s))\<rparr> else s)
      in persist_state_test_reload s)"

text \<open>The test's view of the encrypted record: its IV followed by its data, as in flash.\<close>

definition persist_state_test_encrypt_blob ::
    "persist_blob \<Rightarrow> ('h, 'z) persist_scheme \<Rightarrow> rc \<times> u8 list option \<times> ('h, 'z) persist_scheme" where
  "persist_state_test_encrypt_blob blob s =
     (let (rc, out, s) = app_crypto_encrypt_buffer (blob_bytes blob) 20 s
      in (rc, map_option (\<lambda>(data, iv). iv @ data) out, s))"

definition persist_state_test_decrypt_blob :: "u8 list \<Rightarrow> ('h, 'z) persist_scheme \<Rightarrow> rc \<times> persist_blob option" where
  "persist_state_test_decrypt_blob storage s =
     (let (rc, plain) = app_crypto_decrypt_buffer (drop APP_CRYPTO_IV_LEN storage) (take APP_CRYPTO_IV_LEN storage) 20 s
      in if rc \<noteq> 0 then (rc, None)
         else case plain of
                None \<Rightarrow> (- EIO, None)
              | Some p \<Rightarrow> (if length p = 20 then 0 else - EIO, Some (bytes_blob p)))"

definition persist_state_test_copy_plain :: "persist_blob option \<Rightarrow> persist_blob option \<Rightarrow> persist_blob option" where
  "persist_state_test_copy_plain dst src =
     map_option bytes_blob (safe_memcpy (map_option blob_bytes dst) 20 (map_option blob_bytes src) 20)"

section \<open>Records and bytes\<close>

lemma length_blob_bytes [simp]: "length (blob_bytes b) = 20"
  by (simp add: blob_bytes_def)

lemma un_le32_append [simp]: "un_le32 (le32 w @ bs) = w"
proof -
  have "un_le32 (le32 w @ bs) = un_le32 (le32 w)"
    by (simp add: un_le32_def nth_append)
  then show ?thesis
    by simp
qed

lemma bytes_blob_bytes [simp]: "bytes_blob (blob_bytes b) = b"
  by (simp add: bytes_blob_def blob_bytes_def)

lemma test_copy_plain: "persist_state_test_copy_plain (Some d) (Some b) = Some b"
  by (simp add: persist_state_test_copy_plain_def safe_memcpy_def)

lemma test_decrypt_encrypt:
  fixes s t :: "('h, 'z) persist_scheme"
  assumes "app_crypto_is_enabled s" "app_crypto_is_enabled t" "aes_ctx t = aes_ctx s"
  obtains storage s' where "persist_state_test_encrypt_blob b s = (0, Some storage, s')"
    "persist_state_test_decrypt_blob storage t = (0, Some b)"
proof (rule crypto.open_stored [OF assms(1) length_blob_bytes [of b]])
  fix cipher iv s'
  assume "app_crypto_encrypt_buffer (blob_bytes b) 20 s = (0, Some (cipher, iv), s')" "length cipher = 20" "length iv = 12"
    and opens: "\<And>t :: ('h, 'z) persist_scheme. app_crypto_is_enabled t \<Longrightarrow> aes_ctx t = aes_ctx s \<Longrightarrow>
       app_crypto_decrypt_buffer (drop 12 (iv @ cipher)) (take 12 (iv @ cipher)) 20 t = (0, Some (blob_bytes b))"
  then show thesis
    using opens [OF assms(2,3)] by (intro that [of "iv @ cipher" s'])
      (simp_all add: persist_state_test_encrypt_blob_def persist_state_test_decrypt_blob_def APP_CRYPTO_IV_LEN_def)
qed

interpretation persist_hex: hex_digits hex_nibble
  by (rule hex_digits_by_ranges) (simp add: hex_nibble_def)

section \<open>Loading what was stored\<close>

definition sealed_storage :: "app_config \<Rightarrow> ('h, 'z) persist_scheme \<Rightarrow> bool" where
  \<comment> \<open>is the record read and written in encrypted form?\<close>
  "sealed_storage cfg s \<longleftrightarrow> APP_USE_AES_ENCRYPTION cfg \<and> app_crypto_is_enabled s"

lemma persist_load_none:
  assumes "nvs_contract z view" "view (hw s) PERSIST_RECORD_ID = None"
  shows "persist_load_blob z cfg s = (- ENOENT, None)"
  using assms by (simp add: persist_load_blob_def persist_read_encrypted_def nvs_contract_read Let_def)

lemma persist_load_plain:
  assumes "nvs_contract z view" "view (hw s) PERSIST_RECORD_ID = Some (blob_bytes b)"
  shows "persist_load_blob z cfg s = (0, Some b)"
  using assms by (simp add: persist_load_blob_def persist_read_encrypted_def nvs_contract_read Let_def)

lemma persist_load_sealed:
  assumes "nvs_contract z view" "view (hw s) PERSIST_RECORD_ID = Some d" "length d = 32" "sealed_storage cfg s"
    "app_crypto_decrypt_buffer (drop 12 d) (take 12 d) 20 s = (0, Some (blob_bytes b))"
  shows "persist_load_blob z cfg s = (0, Some b)"
  using assms
  by (simp add: persist_load_blob_def persist_read_encrypted_def nvs_contract_read sealed_storage_def Let_def)

lemma persist_load_sealed_unready:
  assumes "nvs_contract z view" "view (hw s) PERSIST_RECORD_ID = Some d" "length d = 32" "\<not> sealed_storage cfg s"
  shows "persist_load_blob z cfg s = (- ENOENT, None)"
  using assms by (auto simp: persist_load_blob_def nvs_contract_read sealed_storage_def Let_def)

text \<open>
  A successful store: the bytes that are now under the record's id, and what else changed (nothing
  but the hardware and the IV generator).
\<close>

definition same_but_iv :: "('h, 'z) persist_scheme \<Rightarrow> ('h, 'z) persist_scheme \<Rightarrow> bool" where
  "same_but_iv s s' \<longleftrightarrow> (\<exists>h tr p c. s' = s\<lparr>hw := h, trace := tr, prng_state := p, iv_counter := c\<rparr>)"

lemma same_but_iv_refl [simp]: "same_but_iv s s"
  unfolding same_but_iv_def by (intro exI [of _ "hw s"] exI [of _ "trace s"] exI [of _ "prng_state s"]
      exI [of _ "iv_counter s"]) simp

lemma same_but_ivD:
  assumes "same_but_iv s s'"
  shows "g_fs s' = g_fs s" "g_blob s' = g_blob s" "g_loaded s' = g_loaded s" "aes_ctx s' = aes_ctx s"
    "app_crypto_is_enabled s' \<longleftrightarrow> app_crypto_is_enabled s" "sealed_storage cfg s' \<longleftrightarrow> sealed_storage cfg s"
    "active_backend s' = active_backend s" "crypto_ready s' = crypto_ready s" "iv_seed s' = iv_seed s"
    "persist.more s' = persist.more s"
  using assms unfolding same_but_iv_def by (auto simp: app_crypto_is_enabled_def sealed_storage_def)

lemma same_but_iv_trans: "same_but_iv s t \<Longrightarrow> same_but_iv t u \<Longrightarrow> same_but_iv s u"
  unfolding same_but_iv_def by fastforce

lemma same_but_iv_intros [intro]:
  "same_but_iv s (s\<lparr>hw := h\<rparr>)" "same_but_iv s (emit e s)" "same_but_iv s (s\<lparr>prng_state := p, iv_counter := c\<rparr>)"
  unfolding same_but_iv_def emit_def
  by (rule exI [of _ h] exI [of _ "hw s"], rule exI [of _ "trace s"] exI [of _ "trace s @ [e]"],
      rule exI [of _ "prng_state s"] exI [of _ p], rule exI [of _ "iv_counter s"] exI [of _ c], simp)+

text \<open>What a store leaves under the record's id, and that nothing else in the flash moves.\<close>

definition holds_record :: "'h zephyr \<Rightarrow> app_config \<Rightarrow> ('h \<Rightarrow> nat \<Rightarrow> u8 list option) \<Rightarrow> persist_blob \<Rightarrow> ('h, 'z) persist_scheme \<Rightarrow> bool" where
  "holds_record z cfg view b s \<longleftrightarrow>
     (if sealed_storage cfg s
      then \<exists>d. view (hw s) PERSIST_RECORD_ID = Some d \<and> length d = 32 \<and>
             app_crypto_decrypt_buffer (drop 12 d) (take 12 d) 20 s = (0, Some (blob_bytes b))
      else view (hw s) PERSIST_RECORD_ID = Some (blob_bytes b))"

lemma holds_record_load:
  assumes "nvs_contract z view" "holds_record z cfg view b s"
  shows "persist_load_blob z cfg s = (0, Some b)"
  using assms(2) by (auto simp: holds_record_def intro: persist_load_sealed [OF assms(1)] persist_load_plain [OF assms(1)]
      split: if_splits)

lemma decrypt_cong:
  "aes_ctx t = aes_ctx s \<Longrightarrow> app_crypto_is_enabled t \<longleftrightarrow> app_crypto_is_enabled s \<Longrightarrow>
     app_crypto_decrypt_buffer c iv n t = app_crypto_decrypt_buffer c iv n s"
  by (simp add: app_crypto_decrypt_buffer_def)

lemma holds_record_cong:
  assumes "view (hw t) PERSIST_RECORD_ID = view (hw s) PERSIST_RECORD_ID" "aes_ctx t = aes_ctx s"
    "app_crypto_is_enabled t \<longleftrightarrow> app_crypto_is_enabled s"
  shows "holds_record z cfg view b t \<longleftrightarrow> holds_record z cfg view b s"
  using assms decrypt_cong [OF assms(2,3)] by (simp add: holds_record_def sealed_storage_def)

lemma persist_store_frame: "same_but_iv s (snd (persist_store_blob z cfg b s))"
proof -
  define e where "e = app_crypto_encrypt_buffer (blob_bytes b) 20 s"
  have e: "same_but_iv s (snd (snd e))"
    using encrypt_frame [of "blob_bytes b" 20 s] unfolding e_def by auto
  have "same_but_iv s ((snd (snd e))\<lparr>hw := h\<rparr>)" for h
    using e same_but_iv_intros(1) by (rule same_but_iv_trans)
  with e show ?thesis
    unfolding persist_store_blob_def Let_def e_def [symmetric]
    by (auto split: prod.splits option.splits)
qed

lemma persist_store_sound:
  fixes s :: "('h, 'z) persist_scheme"
  assumes z: "nvs_contract z view" and w: "0 \<le> fst (persist_store_blob z cfg b s)"
  shows "holds_record z cfg view b (snd (persist_store_blob z cfg b s))"
    and "\<And>i. i \<noteq> PERSIST_RECORD_ID \<Longrightarrow> view (hw (snd (persist_store_blob z cfg b s))) i = view (hw s) i"
proof -
  let ?s' = "snd (persist_store_blob z cfg b s)"
  have same: "aes_ctx ?s' = aes_ctx s" "app_crypto_is_enabled ?s' \<longleftrightarrow> app_crypto_is_enabled s"
    "sealed_storage cfg ?s' \<longleftrightarrow> sealed_storage cfg s"
    using same_but_ivD [OF persist_store_frame [of s z cfg b]] by auto
  have "holds_record z cfg view b ?s' \<and> (\<forall>i. i \<noteq> PERSIST_RECORD_ID \<longrightarrow> view (hw ?s') i = view (hw s) i)"
  proof (cases "sealed_storage cfg s")
    case True
    then have en: "app_crypto_is_enabled s" and aes: "APP_USE_AES_ENCRYPTION cfg"
      by (simp_all add: sealed_storage_def)
    obtain c iv t where seal: "app_crypto_encrypt_buffer (blob_bytes b) 20 s = (0, Some (c, iv), t)"
      and len: "length c = 20" "length iv = 12"
      and unseal: "\<And>t :: ('h, 'z) persist_scheme. app_crypto_is_enabled t \<Longrightarrow> aes_ctx t = aes_ctx s \<Longrightarrow>
        app_crypto_decrypt_buffer (drop 12 (iv @ c)) (take 12 (iv @ c)) 20 t = (0, Some (blob_bytes b))"
      by (rule crypto.open_stored [OF en length_blob_bytes [of b]]) (rule that; blast)
    have hw: "hw t = hw s"
      using encrypt_frame [of "blob_bytes b" 20 s] unfolding seal by auto
    have store: "persist_store_blob z cfg b s =
        (fst (nvs_write z (g_fs t) PERSIST_RECORD_ID (iv @ c) (hw s)),
         t\<lparr>hw := snd (nvs_write z (g_fs t) PERSIST_RECORD_ID (iv @ c) (hw s))\<rparr>)"
      using en aes len by (simp add: persist_store_blob_def seal hw case_prod_beta Let_def)
    have "view (hw ?s') = (view (hw s))(PERSIST_RECORD_ID := Some (iv @ c))"
      using nvs_contract_write [OF z] w unfolding store by simp
    moreover have "app_crypto_decrypt_buffer (drop 12 (iv @ c)) (take 12 (iv @ c)) 20 ?s' = (0, Some (blob_bytes b))"
      using en same by (intro unseal) auto
    ultimately show ?thesis
      using True same len by (auto simp: holds_record_def)
  next
    case False
    then have store: "persist_store_blob z cfg b s =
        (fst (nvs_write z (g_fs s) PERSIST_RECORD_ID (blob_bytes b) (hw s)),
         s\<lparr>hw := snd (nvs_write z (g_fs s) PERSIST_RECORD_ID (blob_bytes b) (hw s))\<rparr>)"
      by (auto simp: persist_store_blob_def sealed_storage_def case_prod_beta Let_def)
    have "view (hw ?s') = (view (hw s))(PERSIST_RECORD_ID := Some (blob_bytes b))"
      using nvs_contract_write [OF z] w unfolding store by simp
    then show ?thesis
      using False same by (simp add: holds_record_def)
  qed
  then show "holds_record z cfg view b ?s'" "\<And>i. i \<noteq> PERSIST_RECORD_ID \<Longrightarrow> view (hw ?s') i = view (hw s) i"
    by auto
qed

section \<open>Committing\<close>

lemma commit_frame: "same_but_iv s (snd (persist_commit_locked z cfg s))"
  using persist_store_frame [of s z cfg "g_blob s"]
  by (auto simp: persist_commit_locked_def case_prod_beta Let_def intro: same_but_iv_trans)

lemmas commit_same = same_but_ivD [OF commit_frame]

lemma store_writable:
  fixes s :: "('h, 'z) persist_scheme"
  assumes "nvs_writable z"
  shows "0 \<le> fst (persist_store_blob z cfg b s)"
proof (cases "APP_USE_AES_ENCRYPTION cfg \<and> app_crypto_is_enabled s")
  case True
  then obtain c iv t where "app_crypto_encrypt_buffer (blob_bytes b) 20 s = (0, Some (c, iv), t)" "length c = 20"
    using crypto.seal_succeeds [of s "blob_bytes b" 20] length_blob_bytes [of b] by fastforce
  with True assms show ?thesis
    by (simp add: persist_store_blob_def nvs_writable_def case_prod_beta Let_def)
next
  case False
  with assms show ?thesis
    by (auto simp: persist_store_blob_def nvs_writable_def case_prod_beta Let_def)
qed

lemma commit_sound:
  assumes z: "nvs_contract z view" and w: "0 \<le> fst (persist_store_blob z cfg (g_blob s) s)"
  shows "fst (persist_commit_locked z cfg s) = 0"
    and "holds_record z cfg view (g_blob s) (snd (persist_commit_locked z cfg s))"
    and "\<And>i. i \<noteq> PERSIST_RECORD_ID \<Longrightarrow> view (hw (snd (persist_commit_locked z cfg s))) i = view (hw s) i"
proof -
  have "persist_commit_locked z cfg s = (0, snd (persist_store_blob z cfg (g_blob s) s))"
    using w by (simp add: persist_commit_locked_def case_prod_beta Let_def)
  then show "fst (persist_commit_locked z cfg s) = 0"
    "holds_record z cfg view (g_blob s) (snd (persist_commit_locked z cfg s))"
    "\<And>i. i \<noteq> PERSIST_RECORD_ID \<Longrightarrow> view (hw (snd (persist_commit_locked z cfg s))) i = view (hw s) i"
    using persist_store_sound [OF z w] by simp_all
qed

text \<open>RAM and flash agree.\<close>

definition synced :: "'h zephyr \<Rightarrow> app_config \<Rightarrow> ('h \<Rightarrow> nat \<Rightarrow> u8 list option) \<Rightarrow> ('h, 'z) persist_scheme \<Rightarrow> bool" where
  "synced z cfg view s \<longleftrightarrow> g_loaded s \<and> magic (g_blob s) = PERSIST_MAGIC \<and> holds_record z cfg view (g_blob s) s"

lemma commit_synced:
  assumes "nvs_contract z view" "nvs_writable z" "g_loaded s" "magic (g_blob s) = PERSIST_MAGIC"
  shows "synced z cfg view (snd (persist_commit_locked z cfg s))"
    and "g_blob (snd (persist_commit_locked z cfg s)) = g_blob s"
  using commit_sound(2) [OF assms(1) store_writable [OF assms(2)]] assms(3,4)
  by (simp_all add: synced_def commit_same)

section \<open>Bringing up the file system\<close>

lemma flash_open_at_once:
  "fst (flash_area_open z (hw s)) = 0 \<Longrightarrow>
     flash_open_loop z 1 rc fa s =
       (0, Some (fst (snd (flash_area_open z (hw s)))), s\<lparr>hw := snd (snd (flash_area_open z (hw s)))\<rparr>)"
  by (subst flash_open_loop.simps) (simp add: PERSIST_RETRY_LIMIT_def case_prod_beta Let_def)

lemma nvs_mount_at_once:
  "fst (nvs_mount z (g_fs s) (hw s)) = 0 \<Longrightarrow>
     nvs_mount_loop z 1 rc s = (0, s\<lparr>hw := snd (nvs_mount z (g_fs s) (hw s))\<rparr>)"
  by (subst nvs_mount_loop.simps) (simp add: PERSIST_RETRY_LIMIT_def case_prod_beta Let_def)

lemma init_healthy:
  fixes s :: "('h, 'z) persist_scheme"
  assumes "flash_healthy z" "nvs_contract z view" "\<not> g_loaded s"
  obtains h fs where "init_fs_if_needed z cfg s = (0, adopt_blob z cfg (s\<lparr>g_fs := fs, hw := h\<rparr>))"
    "view h = view (hw s)"
proof -
  let ?o = "flash_area_open z (hw s)"
  let ?fa = "fst (snd ?o)"
  let ?fs = "(g_fs s)\<lparr>flash_device := fa_dev ?fa, fs_offset := fa_off ?fa\<rparr>"
  let ?page = "snd (flash_get_page_size z (fa_dev ?fa) (fa_off ?fa) (snd (snd ?o)))"
  let ?fs' = "?fs\<lparr>sector_size := ?page, sector_count := fa_size ?fa div ?page\<rparr>"
  let ?h = "flash_area_close z ?fa (snd (snd ?o))"
  have "init_fs_if_needed z cfg s =
      (0, adopt_blob z cfg (s\<lparr>g_fs := ?fs', hw := snd (nvs_mount z ?fs' ?h)\<rparr>))"
    using assms(1,3)
    by (simp add: init_fs_if_needed_def flash_open_at_once [unfolded One_nat_def] nvs_mount_at_once [unfolded One_nat_def]
        flash_healthy_def case_prod_beta Let_def)
  moreover have "view (snd (nvs_mount z ?fs' ?h)) = view (hw s)"
    using assms(2) by (simp add: nvs_facts)
  ultimately show ?thesis
    by (rule that)
qed

lemma adopt_stored:
  assumes "persist_load_blob z cfg s = (0, Some b)" "magic b = PERSIST_MAGIC"
  shows "adopt_blob z cfg s = s\<lparr>g_blob := b, g_loaded := True\<rparr>"
  using assms by (simp add: adopt_blob_def)

definition fresh_blob :: persist_blob where
  "fresh_blob = zero_blob\<lparr>magic := PERSIST_MAGIC\<rparr>"

lemma adopt_missing:
  assumes "\<And>b. persist_load_blob z cfg s = (0, Some b) \<Longrightarrow> magic b \<noteq> PERSIST_MAGIC"
  shows "adopt_blob z cfg s = (snd (persist_commit_locked z cfg (s\<lparr>g_blob := fresh_blob\<rparr>)))\<lparr>g_loaded := True\<rparr>"
  using assms by (auto simp: adopt_blob_def fresh_blob_def case_prod_beta Let_def prod_eq_iff split: option.splits)

lemma holds_record_updates [simp]:
  "holds_record z cfg view b (s\<lparr>g_loaded := l\<rparr>) \<longleftrightarrow> holds_record z cfg view b s"
  "holds_record z cfg view b (s\<lparr>g_blob := c\<rparr>) \<longleftrightarrow> holds_record z cfg view b s"
  "holds_record z cfg view b (s\<lparr>g_fs := fs\<rparr>) \<longleftrightarrow> holds_record z cfg view b s"
  by (rule holds_record_cong; simp add: app_crypto_is_enabled_def)+

text \<open>The two ways an initialisation ends on a healthy flash.\<close>

lemma init_loads:
  fixes s :: "('h, 'z) persist_scheme"
  assumes z: "flash_healthy z" "nvs_contract z view" and s: "\<not> g_loaded s"
    and b: "holds_record z cfg view b s" "magic b = PERSIST_MAGIC"
  shows "fst (init_fs_if_needed z cfg s) = 0"
    and "synced z cfg view (snd (init_fs_if_needed z cfg s))"
    and "g_blob (snd (init_fs_if_needed z cfg s)) = b"
proof -
  obtain h fs where init: "init_fs_if_needed z cfg s = (0, adopt_blob z cfg (s\<lparr>g_fs := fs, hw := h\<rparr>))"
    and view: "view h = view (hw s)"
    by (rule init_healthy [OF z s])
  have holds: "holds_record z cfg view b (s\<lparr>g_fs := fs, hw := h\<rparr>)"
    by (subst holds_record_cong [where s = s]) (simp_all add: view b(1) app_crypto_is_enabled_def)
  have "adopt_blob z cfg (s\<lparr>g_fs := fs, hw := h\<rparr>) = s\<lparr>g_fs := fs, hw := h, g_blob := b, g_loaded := True\<rparr>"
    by (rule adopt_stored [OF holds_record_load [OF z(2) holds] b(2)])
  then show "fst (init_fs_if_needed z cfg s) = 0" "synced z cfg view (snd (init_fs_if_needed z cfg s))"
    "g_blob (snd (init_fs_if_needed z cfg s)) = b"
    using holds b(2) by (simp_all add: init synced_def)
qed

lemma init_starts_afresh:
  fixes s :: "('h, 'z) persist_scheme"
  assumes z: "flash_healthy z" "nvs_contract z view" "nvs_writable z" and s: "\<not> g_loaded s"
    and b: "\<And>h fs b. view h = view (hw s) \<Longrightarrow>
      persist_load_blob z cfg (s\<lparr>g_fs := fs, hw := h\<rparr>) = (0, Some b) \<Longrightarrow> magic b \<noteq> PERSIST_MAGIC"
  shows "fst (init_fs_if_needed z cfg s) = 0"
    and "synced z cfg view (snd (init_fs_if_needed z cfg s))"
    and "g_blob (snd (init_fs_if_needed z cfg s)) = fresh_blob"
proof -
  obtain h fs where init: "init_fs_if_needed z cfg s = (0, adopt_blob z cfg (s\<lparr>g_fs := fs, hw := h\<rparr>))"
    and view: "view h = view (hw s)"
    by (rule init_healthy [OF z(1,2) s])
  let ?t = "s\<lparr>g_fs := fs, hw := h, g_blob := fresh_blob\<rparr>"
  have adopt: "adopt_blob z cfg (s\<lparr>g_fs := fs, hw := h\<rparr>) = (snd (persist_commit_locked z cfg ?t))\<lparr>g_loaded := True\<rparr>"
    by (rule adopt_missing [OF b [OF view], simplified]) simp
  have "g_blob (snd (persist_commit_locked z cfg ?t)) = fresh_blob"
    by (simp add: commit_same)
  moreover have "holds_record z cfg view fresh_blob (snd (persist_commit_locked z cfg ?t))"
    using commit_sound(2) [OF z(2) store_writable [OF z(3)], of cfg ?t] by simp
  ultimately show "fst (init_fs_if_needed z cfg s) = 0" "synced z cfg view (snd (init_fs_if_needed z cfg s))"
    "g_blob (snd (init_fs_if_needed z cfg s)) = fresh_blob"
    by (simp_all add: init adopt synced_def fresh_blob_def)
qed

section \<open>The abstract counter machine\<close>

text \<open>
  What the component promises: four counters on which the operations act as their names say, and
  which a reload does not change. A reload is \<open>persist_state_test_reload\<close> and a new initialisation: the
  RAM copy is dropped and read from flash again, while the crypto component keeps its state. It is not
  a power cycle, after which the crypto component starts anew (theories \<open>Crypto_Init\<close> and \<open>App_Main\<close>).
\<close>

datatype persist_op = Record_Boot bool | Clear_Counter | Set_Override u32 | Next_Session | Reload

fun spec_step :: "persist_op \<Rightarrow> persist_blob \<Rightarrow> persist_blob" where
  "spec_step (Record_Boot wd) b =
     (if wd then b\<lparr>consecutive_watchdog := consecutive_watchdog b + 1, total_watchdog := total_watchdog b + 1\<rparr>
      else b\<lparr>consecutive_watchdog := 0\<rparr>)"
| "spec_step Clear_Counter b = b\<lparr>consecutive_watchdog := 0\<rparr>"
| "spec_step (Set_Override t) b = b\<lparr>watchdog_override_ms := t\<rparr>"
| "spec_step Next_Session b = b\<lparr>blob_session_counter := blob_session_counter b + 1\<rparr>"
| "spec_step Reload b = b"

fun persist_step :: "'h zephyr \<Rightarrow> app_config \<Rightarrow> persist_op \<Rightarrow> ('h, 'z) persist_scheme \<Rightarrow> ('h, 'z) persist_scheme" where
  "persist_step z cfg (Record_Boot wd) s = persist_state_record_boot z cfg wd s"
| "persist_step z cfg Clear_Counter s = persist_state_clear_watchdog_counter z cfg s"
| "persist_step z cfg (Set_Override t) s = snd (persist_state_set_watchdog_override z cfg t s)"
| "persist_step z cfg Next_Session s = snd (persist_state_next_session_counter z cfg s)"
| "persist_step z cfg Reload s = snd (persist_state_init z cfg (persist_state_test_reload s))"

lemma init_loaded [simp]: "g_loaded s \<Longrightarrow> init_fs_if_needed z cfg s = (0, s)"
  by (simp add: init_fs_if_needed_def)

lemma blob_consecutive_self [simp]: "consecutive_watchdog b = 0 \<Longrightarrow> b\<lparr>consecutive_watchdog := 0\<rparr> = b"
  by (cases b) simp

lemma persist_step_refines:
  fixes s :: "('h, 'z) persist_scheme"
  assumes z: "nvs_contract z view" "nvs_writable z" "flash_healthy z" and s: "synced z cfg view s"
  shows "synced z cfg view (persist_step z cfg op s) \<and> g_blob (persist_step z cfg op s) = spec_step op (g_blob s)"
proof -
  have l: "g_loaded s" "magic (g_blob s) = PERSIST_MAGIC"
    using s by (simp_all add: synced_def)
  note commit = commit_synced [OF z(1,2)]
  show ?thesis
  proof (cases op)
    case (Record_Boot wd)
    then show ?thesis
      using l by (auto simp: persist_state_record_boot_def commit Let_def)
  next
    case Clear_Counter
    then show ?thesis
      using l s by (auto simp: persist_state_clear_watchdog_counter_def commit Let_def)
  next
    case (Set_Override t)
    then show ?thesis
      using l s by (auto simp: persist_state_set_watchdog_override_def commit Let_def)
  next
    case Next_Session
    then show ?thesis
      using l by (auto simp: persist_state_next_session_counter_def commit Let_def)
  next
    case Reload
    have "holds_record z cfg view (g_blob s) (persist_state_test_reload s)"
      using s by (simp add: synced_def persist_state_test_reload_def)
    with l init_loads [OF z(3,1), of "persist_state_test_reload s" cfg "g_blob s"] Reload show ?thesis
      by (simp add: persist_state_init_def persist_state_test_reload_def)
  qed
qed

text \<open>
  What the rest of the firmware may assume of a store of counters: every operation keeps its invariant
  and acts on the visible counters as specified. A client needs the two for whole sequences.
\<close>

locale counter_store =
  fixes step :: "'op \<Rightarrow> 's \<Rightarrow> 's" and counters :: "'s \<Rightarrow> 'c" and ok :: "'s \<Rightarrow> bool" and spec :: "'op \<Rightarrow> 'c \<Rightarrow> 'c"
  assumes step_ok: "ok s \<Longrightarrow> ok (step op s)"
    and step_counters: "ok s \<Longrightarrow> counters (step op s) = spec op (counters s)"
begin

lemma run:
  assumes "ok s"
  shows "ok (fold step ops s) \<and> counters (fold step ops s) = fold spec ops (counters s)"
  using assms
proof (induction ops arbitrary: s)
  case (Cons op ops)
  then show ?case
    using Cons.IH [OF step_ok [OF Cons.prems, of op]] step_counters [OF Cons.prems, of op] by simp
qed simp

end

interpretation store: counter_store "persist_step z cfg" g_blob
    "\<lambda>s. nvs_contract z view \<and> nvs_writable z \<and> flash_healthy z \<and> synced z cfg view s" spec_step
  for z :: "'h zephyr" and cfg view
  using persist_step_refines by unfold_locales blast+

section \<open>The retry loops\<close>

definition slept :: "effect list \<Rightarrow> nat" where
  "slept tr = sum_list (map (\<lambda>e. case e of Sleep n \<Rightarrow> n | _ \<Rightarrow> 0) tr)"

lemma slept_simps [simp]: "slept [] = 0" "slept (xs @ ys) = slept xs + slept ys" "slept [Sleep n] = n"
  "slept [LOG_EVT lvl tag st args] = 0"
  by (simp_all add: slept_def LOG_EVT_def)

text \<open>What a retry loop leaves alone, with its sleeps bounded by \<open>n\<close> milliseconds.\<close>

definition quiet_within :: "('h \<Rightarrow> nat \<Rightarrow> u8 list option) \<Rightarrow> nat \<Rightarrow> ('h, 'z) persist_scheme \<Rightarrow> ('h, 'z) persist_scheme \<Rightarrow> bool" where
  "quiet_within view n s s' \<longleftrightarrow> slept (trace s') \<le> slept (trace s) + n \<and> view (hw s') = view (hw s) \<and>
     (\<exists>h tr. s' = s\<lparr>hw := h, trace := tr\<rparr>)"

lemma quiet_within_trans:
  "quiet_within view m s t \<Longrightarrow> quiet_within view n t u \<Longrightarrow> m + n \<le> k \<Longrightarrow> quiet_within view k s u"
  unfolding quiet_within_def by fastforce

lemma quiet_withinI:
  "slept (trace s') \<le> slept (trace s) + n \<Longrightarrow> view (hw s') = view (hw s) \<Longrightarrow> s' = s\<lparr>hw := h, trace := tr\<rparr> \<Longrightarrow>
     quiet_within view n s s'"
  unfolding quiet_within_def by blast

lemma quiet_within_hw: "view h = view (hw s) \<Longrightarrow> quiet_within view 0 s (s\<lparr>hw := h\<rparr>)"
  by (rule quiet_withinI [where h = h and tr = "trace s"]) simp_all

lemma quiet_within_emit: "quiet_within view 0 s (emit (LOG_EVT l t st args) s)"
  by (rule quiet_withinI [where h = "hw s"]) (simp, simp, simp add: emit_def)

lemma quiet_within_refl: "quiet_within view n s s"
  by (rule quiet_withinI [where h = "hw s" and tr = "trace s"]) simp_all

lemma quiet_within_msleep: "nvs_contract z view \<Longrightarrow> quiet_within view n s (msleep z n s)"
  by (rule quiet_withinI [where h = "k_msleep z n (hw s)"]) (simp, simp add: nvs_facts, simp add: msleep_def emit_def)

lemma flash_open_loop_quiet:
  "nvs_contract z view \<Longrightarrow> 1 \<le> attempt \<Longrightarrow> rc \<noteq> 0 \<or> attempt \<le> 3 \<Longrightarrow> fa = None \<Longrightarrow>
     (case flash_open_loop z attempt rc fa s of (rc', fa', s') \<Rightarrow>
        quiet_within view (10 * (3 - attempt)) s s' \<and> (fa' = None \<longleftrightarrow> rc' \<noteq> 0))"
proof (induction z attempt rc fa s rule: flash_open_loop.induct)
  case (1 z attempt rc fa s)
  show ?case
  proof (cases "attempt \<le> 3")
    case False
    with 1 show ?thesis
      by (subst flash_open_loop.simps) (simp add: PERSIST_RETRY_LIMIT_def quiet_within_refl)
  next
    case True
    obtain r a h where o: "flash_area_open z (hw s) = (r, a, h)"
      by (metis prod.exhaust)
    let ?s = "s\<lparr>hw := h\<rparr>"
    have s: "quiet_within view 0 s ?s"
      using nvs_contract_quiet(3) [OF 1(2), of "hw s"] by (intro quiet_within_hw) (simp add: o)
    show ?thesis
    proof (cases "r = 0")
      case rc: True
      have "quiet_within view 0 s (emit (LOG_EVT L_INF ''PERSIST'' ''FLASH_OPEN_RECOVERED'' [LNum (int attempt)]) ?s)"
        by (rule quiet_within_trans [OF s quiet_within_emit]) simp
      with s True rc show ?thesis
        by (subst flash_open_loop.simps)
          (auto simp: o PERSIST_RETRY_LIMIT_def Let_def intro: quiet_within_trans [OF _ quiet_within_refl])
    next
      case rc: False
      let ?e = "emit (LOG_EVT L_WRN ''PERSIST'' ''FLASH_OPEN_RETRY'' [LNum (int attempt), LNum r]) ?s"
      let ?t = "if attempt < 3 then msleep z 10 ?e else ?e"
      have unfold: "flash_open_loop z attempt rc fa s = flash_open_loop z (attempt + 1) r fa ?t"
        using True rc by (subst flash_open_loop.simps)
          (simp add: o PERSIST_RETRY_LIMIT_def PERSIST_RETRY_DELAY_MS_def Let_def)
      have e: "quiet_within view 0 s ?e"
        by (rule quiet_within_trans [OF s quiet_within_emit]) simp
      have t: "quiet_within view (if attempt < 3 then 10 else 0) s ?t"
        using e quiet_within_trans [OF e quiet_within_msleep [OF 1(2)], of 10 10] by simp
      have IH: "case flash_open_loop z (attempt + 1) r fa ?t of (rc', fa', s') \<Rightarrow>
          quiet_within view (10 * (3 - (attempt + 1))) ?t s' \<and> (fa' = None \<longleftrightarrow> rc' \<noteq> 0)"
        using 1(2,3,5) True rc
        by (intro 1(1)) (auto simp: o PERSIST_RETRY_LIMIT_def PERSIST_RETRY_DELAY_MS_def)
      have "(if attempt < 3 then 10 else 0) + 10 * (3 - (attempt + 1)) \<le> 10 * (3 - attempt)"
        by auto
      with IH quiet_within_trans [OF t] show ?thesis
        unfolding unfold by (auto split: prod.splits)
    qed
  qed
qed

lemma nvs_mount_loop_quiet:
  "nvs_contract z view \<Longrightarrow> 1 \<le> attempt \<Longrightarrow>
     quiet_within view (10 * (3 - attempt)) s (snd (nvs_mount_loop z attempt rc s))"
proof (induction z attempt rc s rule: nvs_mount_loop.induct)
  case (1 z attempt rc s)
  show ?case
  proof (cases "attempt \<le> 3")
    case False
    then show ?thesis
      by (subst nvs_mount_loop.simps) (simp add: PERSIST_RETRY_LIMIT_def quiet_within_refl)
  next
    case True
    obtain r h where m: "nvs_mount z (g_fs s) (hw s) = (r, h)"
      by (metis prod.exhaust)
    let ?s = "s\<lparr>hw := h\<rparr>"
    have s: "quiet_within view 0 s ?s"
      using nvs_contract_quiet(5) [OF 1(2), of "g_fs s" "hw s"] by (intro quiet_within_hw) (simp add: m)
    show ?thesis
    proof (cases "r = 0")
      case rc: True
      have "quiet_within view 0 s (emit (LOG_EVT L_INF ''PERSIST'' ''NVS_MOUNT_RECOVERED'' [LNum (int attempt)]) ?s)"
        by (rule quiet_within_trans [OF s quiet_within_emit]) simp
      with s True rc show ?thesis
        by (subst nvs_mount_loop.simps)
          (auto simp: m PERSIST_RETRY_LIMIT_def Let_def intro: quiet_within_trans [OF _ quiet_within_refl])
    next
      case rc: False
      let ?e = "emit (LOG_EVT L_WRN ''PERSIST'' ''NVS_MOUNT_RETRY'' [LNum (int attempt), LNum r]) ?s"
      let ?t = "if attempt < 3 then msleep z 10 ?e else ?e"
      have unfold: "nvs_mount_loop z attempt rc s = nvs_mount_loop z (attempt + 1) r ?t"
        using True rc by (subst nvs_mount_loop.simps)
          (simp add: m PERSIST_RETRY_LIMIT_def PERSIST_RETRY_DELAY_MS_def Let_def)
      have e: "quiet_within view 0 s ?e"
        by (rule quiet_within_trans [OF s quiet_within_emit]) simp
      have t: "quiet_within view (if attempt < 3 then 10 else 0) s ?t"
        using e quiet_within_trans [OF e quiet_within_msleep [OF 1(2)], of 10 10] by simp
      have IH: "quiet_within view (10 * (3 - (attempt + 1))) ?t (snd (nvs_mount_loop z (attempt + 1) r ?t))"
        using 1(2,3) True rc
        by (intro 1(1)) (auto simp: m PERSIST_RETRY_LIMIT_def PERSIST_RETRY_DELAY_MS_def)
      have "(if attempt < 3 then 10 else 0) + 10 * (3 - (attempt + 1)) \<le> 10 * (3 - attempt)"
        by auto
      with IH quiet_within_trans [OF t] show ?thesis
        unfolding unfold by blast
    qed
  qed
qed

text \<open>
  The outcome of an initialisation on any flash. A state after a failed attempt differs from the
  one before it in the hardware, the trace and the file-system descriptor only.
\<close>

lemma slept_commit [simp]: "slept (trace (snd (persist_commit_locked z cfg s))) = slept (trace s)"
proof -
  have "trace (snd (persist_store_blob z cfg b s)) = trace s" for b
    using encrypt_frame [of "blob_bytes b" 20 s]
    by (auto simp: persist_store_blob_def case_prod_beta Let_def split: option.splits prod.splits)
  then show ?thesis
    by (simp add: persist_commit_locked_def case_prod_beta Let_def)
qed

lemma adopt_blob_slept [simp]: "slept (trace (adopt_blob z cfg s)) = slept (trace s)"
  by (simp add: adopt_blob_def case_prod_beta Let_def split: option.splits)

lemma adopt_blob_loaded [simp]: "g_loaded (adopt_blob z cfg s)"
  by (simp add: adopt_blob_def case_prod_beta Let_def split: option.splits)

lemma adopt_blob_magic [simp]: "magic (g_blob (adopt_blob z cfg s)) = PERSIST_MAGIC"
  by (auto simp: adopt_blob_def case_prod_beta Let_def commit_same split: option.splits)

lemma init_outcome:
  fixes s :: "('h, 'z) persist_scheme"
  assumes z: "nvs_contract z view" and s: "\<not> g_loaded s"
  shows "(case init_fs_if_needed z cfg s of (rc, s') \<Rightarrow>
    slept (trace s') \<le> slept (trace s) + 40 \<and>
    (if rc = 0 then g_loaded s' \<and> magic (g_blob s') = PERSIST_MAGIC
     else \<not> g_loaded s' \<and> g_blob s' = g_blob s \<and> view (hw s') = view (hw s)))"
proof -
  obtain rc fa t where o: "flash_open_loop z 1 0 None s = (rc, fa, t)"
    by (metis prod.exhaust)
  have t: "quiet_within view 20 s t" and fa: "fa = None \<longleftrightarrow> rc \<noteq> 0"
    using flash_open_loop_quiet [OF z, of 1 0 None s] by (simp_all add: o [unfolded One_nat_def])
  have t_facts: "slept (trace t) \<le> slept (trace s) + 20" "view (hw t) = view (hw s)" "\<not> g_loaded t" "g_blob t = g_blob s"
    using t s by (auto simp: quiet_within_def)
  show ?thesis
  proof (cases fa)
    case None
    with fa t_facts s show ?thesis
      by (simp add: init_fs_if_needed_def o [unfolded One_nat_def])
  next
    case (Some a)
    let ?u = "t\<lparr>g_fs := (g_fs t)\<lparr>flash_device := fa_dev a, fs_offset := fa_off a\<rparr>\<rparr>"
    obtain prc page where p: "flash_get_page_size z (fa_dev a) (fa_off a) (hw t) = (prc, page)"
      by (metis prod.exhaust)
    let ?v = "?u\<lparr>g_fs := (g_fs ?u)\<lparr>sector_size := page, sector_count := fa_size a div page\<rparr>, hw := flash_area_close z a (hw t)\<rparr>"
    obtain mrc w where m: "nvs_mount_loop z 1 0 ?v = (mrc, w)"
      by (metis prod.exhaust)
    have "quiet_within view 20 ?v w"
      using nvs_mount_loop_quiet [OF z order.refl, of ?v 0] unfolding m by simp
    then have w: "slept (trace w) \<le> slept (trace s) + 40" "view (hw w) = view (hw s)" "\<not> g_loaded w" "g_blob w = g_blob s"
      using t_facts z by (auto simp: quiet_within_def nvs_facts)
    have "init_fs_if_needed z cfg s =
       (if \<not> device_is_ready z (fa_dev a) (hw t)
        then (- EBUSY, (emit (LOG_EVT L_ERR ''PERSIST'' ''FLASH_NOT_READY'' [LNum (int (STORAGE_PARTITION_ID cfg))])
               (t\<lparr>g_fs := (g_fs t)\<lparr>flash_device := fa_dev a\<rparr>\<rparr>))\<lparr>hw := flash_area_close z a (hw t)\<rparr>)
        else if prc \<noteq> 0 then (prc, (emit (LOG_EVT L_ERR ''PERSIST'' ''FLASH_PAGE_INFO_FAIL'' [LNum prc]) ?u)
               \<lparr>hw := flash_area_close z a (hw t)\<rparr>)
        else if mrc \<noteq> 0 then (mrc, emit (LOG_EVT L_ERR ''PERSIST'' ''NVS_MOUNT_FAIL'' [LNum mrc]) w)
        else (0, adopt_blob z cfg w))"
      using s m [unfolded One_nat_def] by (simp add: init_fs_if_needed_def o [unfolded One_nat_def] Some p Let_def)
    with w t_facts z show ?thesis
      by (simp add: nvs_facts)
  qed
qed

section \<open>The provisioned keys\<close>

definition key_record :: "u32 \<Rightarrow> u8 list \<Rightarrow> u8 list" where
  "key_record m key = le32 m @ key"

lemma secret_after_set:
  fixes s t :: "('h, 'z) persist_scheme"
  assumes z: "nvs_contract z view" and cfg: "APP_CRYPTO_BACKEND_CURVE25519 cfg"
    and len: "length key = 32" and l: "g_loaded s"
    and set: "persist_state_curve25519_set_secret z cfg (Some key) s = (0, s')"
    and t: "g_loaded t" "view (hw t) PERSIST_CURVE_SECRET_ID = view (hw s') PERSIST_CURVE_SECRET_ID"
  shows "persist_state_curve25519_get_secret z cfg t = (0, Some (curve25519_ref10_clamp_scalar key), t)"
proof -
  let ?rec = "le32 PERSIST_CURVE_SECRET_MAGIC @ curve25519_ref10_clamp_scalar key"
  let ?w = "nvs_write z (g_fs s) PERSIST_CURVE_SECRET_ID ?rec (hw s)"
  have "0 \<le> fst ?w" "s' = s\<lparr>hw := snd ?w\<rparr>"
    using set l cfg len
    by (auto simp: persist_state_curve25519_set_secret_def CURVE25519_KEY_SIZE_def case_prod_beta Let_def split: if_splits)
  then have "view (hw t) PERSIST_CURVE_SECRET_ID = Some ?rec"
    using nvs_contract_write [OF z] t(2) by simp
  then have "nvs_read z (g_fs t) PERSIST_CURVE_SECRET_ID 36 (hw t) = (36, ?rec)"
    using len by (simp add: nvs_contract_read [OF z])
  then show ?thesis
    using cfg t(1) by (simp add: persist_state_curve25519_get_secret_def)
qed

lemma peer_after_set:
  fixes s t :: "('h, 'z) persist_scheme"
  assumes z: "nvs_contract z view" and cfg: "APP_CRYPTO_BACKEND_CURVE25519 cfg"
    and len: "length key = 32" and l: "g_loaded s"
    and set: "persist_state_curve25519_set_peer z cfg (Some key) s = (0, s')"
    and t: "g_loaded t" "view (hw t) PERSIST_CURVE_PEER_ID = view (hw s') PERSIST_CURVE_PEER_ID"
  shows "persist_state_curve25519_get_peer z cfg t = (0, Some key, t)"
proof -
  let ?rec = "le32 PERSIST_CURVE_PEER_MAGIC @ key"
  let ?w = "nvs_write z (g_fs s) PERSIST_CURVE_PEER_ID ?rec (hw s)"
  have "0 \<le> fst ?w" "s' = s\<lparr>hw := snd ?w\<rparr>"
    using set l cfg len
    by (auto simp: persist_state_curve25519_set_peer_def CURVE25519_KEY_SIZE_def case_prod_beta Let_def split: if_splits)
  then have "view (hw t) PERSIST_CURVE_PEER_ID = Some ?rec"
    using nvs_contract_write [OF z] t(2) by simp
  then have "nvs_read z (g_fs t) PERSIST_CURVE_PEER_ID 36 (hw t) = (36, ?rec)"
    using len by (simp add: nvs_contract_read [OF z])
  then show ?thesis
    using cfg t(1) by (simp add: persist_state_curve25519_get_peer_def)
qed

section \<open>What the operations leave alone\<close>

text \<open>The variables of the components above this one are in the rest of the record.\<close>

lemma flash_open_loop_more [simp]: "persist.more (snd (snd (flash_open_loop z n rc fa s))) = persist.more s"
proof (induction z n rc fa s rule: flash_open_loop.induct)
  case (1 z n rc fa s)
  obtain r a h where o: "flash_area_open z (hw s) = (r, a, h)"
    by (metis prod.exhaust)
  show ?case
    using 1 by (subst flash_open_loop.simps) (simp add: o emit_def msleep_def Let_def)
qed

lemma nvs_mount_loop_more [simp]: "persist.more (snd (nvs_mount_loop z n rc s)) = persist.more s"
proof (induction z n rc s rule: nvs_mount_loop.induct)
  case (1 z n rc s)
  obtain r h where m: "nvs_mount z (g_fs s) (hw s) = (r, h)"
    by (metis prod.exhaust)
  show ?case
    using 1 by (subst nvs_mount_loop.simps) (simp add: m emit_def msleep_def Let_def)
qed

lemma emit_more [simp]: "persist.more (emit e s) = persist.more s" "persist.more (msleep z n s) = persist.more s"
  by (simp_all add: emit_def msleep_def)

lemma commit_more [simp]: "persist.more (snd (persist_commit_locked z cfg s)) = persist.more s"
  by (rule commit_same)

lemma adopt_more [simp]: "persist.more (adopt_blob z cfg s) = persist.more s"
  by (simp add: adopt_blob_def case_prod_beta Let_def split: option.splits)

lemma init_more [simp]: "persist.more (snd (init_fs_if_needed z cfg s)) = persist.more s"
proof -
  obtain rc fa t where o: "flash_open_loop z 1 0 None s = (rc, fa, t)"
    by (metis prod.exhaust)
  have "persist.more t = persist.more s"
    using flash_open_loop_more [of z 1 0 None s] unfolding o by simp
  then show ?thesis
    by (auto simp: init_fs_if_needed_def o [unfolded One_nat_def] case_prod_beta Let_def split: option.splits)
qed

lemma persist_ops_more [simp]:
  "persist.more (snd (persist_state_init z cfg s)) = persist.more s"
  "persist.more (persist_state_record_boot z cfg wd s) = persist.more s"
  "persist.more (persist_state_clear_watchdog_counter z cfg s) = persist.more s"
  "persist.more (snd (persist_state_set_watchdog_override z cfg t s)) = persist.more s"
  "persist.more (snd (persist_state_next_session_counter z cfg s)) = persist.more s"
  "persist.more (snd (snd (persist_state_curve25519_get_secret z cfg s))) = persist.more s"
  "persist.more (snd (persist_state_curve25519_set_secret z cfg k s)) = persist.more s"
  "persist.more (snd (snd (persist_state_curve25519_get_peer z cfg s))) = persist.more s"
  "persist.more (snd (persist_state_curve25519_set_peer z cfg k s)) = persist.more s"
  by (simp_all add: persist_state_init_def persist_state_record_boot_def persist_state_clear_watchdog_counter_def
      persist_state_set_watchdog_override_def persist_state_next_session_counter_def
      persist_state_curve25519_get_secret_def persist_state_curve25519_set_secret_def
      persist_state_curve25519_get_peer_def persist_state_curve25519_set_peer_def case_prod_beta Let_def
      split: option.splits)
section \<open>A board for the witnesses\<close>

definition sim_persist :: "(sim, unit) persist_scheme" where
  "sim_persist = \<lparr>hw = sim_boot, trace = [], key_buf = replicate 32 0, key_len = 0, iv_seed = replicate 12 0,
     crypto_ready = False, iv_counter = 0, prng_state = 0x6d5a56a1,
     aes_ctx = \<lparr>round_keys = replicate 240 0, rounds = 0\<rparr>, session_mac_key = replicate 16 0,
     session_counter = 0, session_salt = 0, active_backend = APP_CRYPTO_BACKEND_TYPE_NONE,
     g_fs = zero_fs, g_blob = zero_blob, g_loaded = False\<rparr>"

lemmas sim_contracts = sim_nvs_contract sim_nvs_writable sim_flash_healthy

lemma sim_persist_fresh: "\<not> g_loaded sim_persist" "\<not> app_crypto_is_enabled sim_persist" "sim_flash (hw sim_persist) = Map.empty"
  by (simp_all add: sim_persist_def app_crypto_is_enabled_def sim_boot_def)

definition sim_started :: "(sim, unit) persist_scheme" where
  "sim_started = snd (persist_state_init sim_board prj_conf sim_persist)"

lemma sim_started_synced: "synced sim_board prj_conf sim_flash sim_started" "g_blob sim_started = fresh_blob"
proof -
  have "persist_load_blob sim_board prj_conf (sim_persist\<lparr>g_fs := fs, hw := h\<rparr>) = (- ENOENT, None)"
    if "sim_flash h = sim_flash (hw sim_persist)" for fs h
    by (rule persist_load_none [OF sim_nvs_contract]) (simp add: that sim_persist_fresh)
  then show "synced sim_board prj_conf sim_flash sim_started" "g_blob sim_started = fresh_blob"
    using init_starts_afresh [OF sim_contracts(3,1,2) sim_persist_fresh(1), of prj_conf]
    by (auto simp: sim_started_def persist_state_init_def)
qed

section \<open>Properties\<close>

text \<open>
  Claim C3. Refinement within one boot: on a flash that answers as documented, is healthy and takes
  writes, and from a state in which the record is loaded and equal in RAM and flash (\<open>synced\<close>), any
  sequence of \<open>record_boot\<close>, counter clears, override changes, session numbers and reloads acts on
  the record exactly as on the four abstract counters of \<open>spec_step\<close> (32-bit, wrapping), and RAM and
  flash agree again afterwards. A reload drops the RAM copy and reads the record back while the crypto
  component keeps its key and readiness, with either storage format. Power cycles, which also reset
  the crypto component, are not among the operations; in the Curve25519 build they lose the counters.
\<close>

theorem persist_refines_counters:
  assumes "nvs_contract z view" "nvs_writable z" "flash_healthy z" "synced z cfg view s"
  shows "g_blob (fold (persist_step z cfg) ops s) = fold spec_step ops (g_blob s) \<and>
     synced z cfg view (fold (persist_step z cfg) ops s)"
  using store.run [of z view cfg s ops] assms by simp

theorem persist_refines_counters_witness:
  "consecutive_watchdog (g_blob (fold (persist_step sim_board prj_conf)
     [Record_Boot True, Set_Override 5000, Reload, Record_Boot True] sim_started)) = 2"
  using persist_refines_counters [OF sim_contracts(1-3) sim_started_synced(1), of "[Record_Boot True, Set_Override 5000, Reload, Record_Boot True]"]
  by (simp add: sim_started_synced(2) fresh_blob_def zero_blob_def)

text \<open>
  Claim C27. Which stored records survive a change of the crypto state: a record stored by state \<open>s\<close>
  is read back by state \<open>t\<close> when it was stored in the clear, or when both have the same key ready;
  a record stored encrypted is reported missing (\<open>-ENOENT\<close>) to a state whose crypto is not ready yet.
\<close>

theorem load_after_store:
  assumes z: "nvs_contract z view" "nvs_writable z"
    and s': "s' = snd (persist_store_blob z cfg b s)"
    and t: "view (hw t) PERSIST_RECORD_ID = view (hw s') PERSIST_RECORD_ID"
  shows "(\<not> sealed_storage cfg s \<longrightarrow> persist_load_blob z cfg t = (0, Some b)) \<and>
     (sealed_storage cfg s \<longrightarrow> sealed_storage cfg t \<longrightarrow> aes_ctx t = aes_ctx s \<longrightarrow>
        persist_load_blob z cfg t = (0, Some b)) \<and>
     (sealed_storage cfg s \<longrightarrow> \<not> sealed_storage cfg t \<longrightarrow> persist_load_blob z cfg t = (- ENOENT, None))"
proof -
  have holds: "holds_record z cfg view b s'"
    unfolding s' by (rule persist_store_sound(1) [OF z(1) store_writable [OF z(2)]])
  have same: "sealed_storage cfg s' \<longleftrightarrow> sealed_storage cfg s" "aes_ctx s' = aes_ctx s"
    "app_crypto_is_enabled s' \<longleftrightarrow> app_crypto_is_enabled s"
    using same_but_ivD [OF persist_store_frame [of s z cfg b]] by (simp_all add: s')
  show ?thesis
  proof (intro conjI impI)
    assume "\<not> sealed_storage cfg s"
    then show "persist_load_blob z cfg t = (0, Some b)"
      using holds t same by (intro persist_load_plain [OF z(1)]) (simp add: holds_record_def)
  next
    assume "sealed_storage cfg s" "sealed_storage cfg t" "aes_ctx t = aes_ctx s"
    then show "persist_load_blob z cfg t = (0, Some b)"
      using holds holds_record_cong [where view = view and t = t and s = s', OF t, of z cfg b] same
      by (intro holds_record_load [OF z(1)]) (simp add: sealed_storage_def)
  next
    assume "sealed_storage cfg s" "\<not> sealed_storage cfg t"
    then show "persist_load_blob z cfg t = (- ENOENT, None)"
      using holds t same by (auto simp: holds_record_def intro!: persist_load_sealed_unready [OF z(1)])
  qed
qed

definition sim_sealed :: "(sim, unit) persist_scheme" where
  "sim_sealed = sim_persist\<lparr>crypto_ready := True, active_backend := APP_CRYPTO_BACKEND_TYPE_AES,
     aes_ctx := \<lparr>round_keys = replicate 240 5, rounds = 14\<rparr>\<rparr>"

theorem load_after_store_witness:
  "persist_load_blob sim_board prj_conf
     (sim_persist\<lparr>hw := hw (snd (persist_store_blob sim_board prj_conf fresh_blob sim_sealed))\<rparr>) = (- ENOENT, None)"
proof -
  have "sealed_storage prj_conf sim_sealed" "\<not> sealed_storage prj_conf (sim_persist\<lparr>hw := h\<rparr>)" for h
    by (simp_all add: sealed_storage_def sim_sealed_def sim_persist_def app_crypto_is_enabled_def
        prj_conf_def kconfig_defaults_def)
  then show ?thesis
    using load_after_store [OF sim_contracts(1,2) refl, of "sim_persist\<lparr>hw := hw (snd (persist_store_blob sim_board prj_conf fresh_blob sim_sealed))\<rparr>" prj_conf fresh_blob sim_sealed]
    by simp
qed

text \<open>
  Claim C17. Bringing up the storage always returns, having slept at most 40 ms (two loops of three
  attempts, 10 ms apart): on success the state is loaded with a valid magic number; on any failure
  the component stays unloaded, so the next operation tries again, its counters in RAM are
  untouched and nothing has been written to the flash.
\<close>

theorem init_bounded_and_safe:
  assumes "nvs_contract z view" "\<not> g_loaded s"
  shows "(case persist_state_init z cfg s of (rc, s') \<Rightarrow>
    slept (trace s') \<le> slept (trace s) + 40 \<and>
    (if rc = 0 then g_loaded s' \<and> magic (g_blob s') = PERSIST_MAGIC
     else \<not> g_loaded s' \<and> g_blob s' = g_blob s \<and> view (hw s') = view (hw s)))"
  using init_outcome [OF assms] by (simp add: persist_state_init_def)

theorem init_bounded_and_safe_witness:
  "g_loaded (snd (persist_state_init (sim_board\<lparr>flash_area_open := \<lambda>h. (- EIO, \<lparr>fa_dev = Flash_Dev 0, fa_off = 0, fa_size = 0\<rparr>, h)\<rparr>)
      prj_conf sim_persist)) \<longleftrightarrow>
   fst (persist_state_init (sim_board\<lparr>flash_area_open := \<lambda>h. (- EIO, \<lparr>fa_dev = Flash_Dev 0, fa_off = 0, fa_size = 0\<rparr>, h)\<rparr>)
      prj_conf sim_persist) = 0"
proof -
  let ?z = "sim_board\<lparr>flash_area_open := \<lambda>h. (- EIO, \<lparr>fa_dev = Flash_Dev 0, fa_off = 0, fa_size = 0\<rparr>, h)\<rparr>"
  have "nvs_contract ?z sim_flash"
    using sim_nvs_contract by (simp add: nvs_contract_def nvs_read_ok_def nvs_write_ok_def storage_quiet_def)
  from init_bounded_and_safe [OF this sim_persist_fresh(1), of prj_conf] show ?thesis
    by (auto split: prod.splits if_splits)
qed

text \<open>
  Claim C32. A watchdog override whose flash write failed is lost silently: the failing call leaves
  the new value in RAM, so repeating the same command compares equal, returns success and changes
  nothing, while the flash still holds the old value.
\<close>

theorem override_retry_does_not_write:
  assumes "g_loaded s" "persist_state_set_watchdog_override z cfg t s = (rc, s')" "rc < 0"
  shows "persist_state_get_watchdog_override s' = t \<and>
     persist_state_set_watchdog_override z cfg t s' = (0, s')"
proof -
  have s': "s' = snd (persist_commit_locked z cfg (s\<lparr>g_blob := (g_blob s)\<lparr>watchdog_override_ms := t\<rparr>\<rparr>))"
    using assms by (auto simp: persist_state_set_watchdog_override_def split: if_splits)
  have "g_blob s' = (g_blob s)\<lparr>watchdog_override_ms := t\<rparr>" "g_loaded s'"
    using assms(1) by (simp_all add: s' commit_same)
  then show ?thesis
    by (simp add: persist_state_get_watchdog_override_def persist_state_set_watchdog_override_def)
qed

theorem override_retry_does_not_write_witness:
  "\<exists>s'. persist_state_set_watchdog_override (sim_board\<lparr>nvs_write := \<lambda>fs i d h. (- EIO, h)\<rparr>) prj_conf 500
       (sim_persist\<lparr>g_loaded := True\<rparr>) = (- EIO, s') \<and> sim_flash (hw s') = Map.empty \<and>
     persist_state_set_watchdog_override (sim_board\<lparr>nvs_write := \<lambda>fs i d h. (- EIO, h)\<rparr>) prj_conf 500 s' = (0, s')"
proof -
  let ?z = "sim_board\<lparr>nvs_write := \<lambda>fs i d h. (- EIO, h)\<rparr>"
  let ?s = "sim_persist\<lparr>g_loaded := True\<rparr>"
  obtain s' where r: "persist_state_set_watchdog_override ?z prj_conf 500 ?s = (- EIO, s')" "sim_flash (hw s') = Map.empty"
    by (simp add: persist_state_set_watchdog_override_def persist_commit_locked_def persist_store_blob_def
        sim_persist_def zero_blob_def app_crypto_is_enabled_def sim_boot_def)
  have "persist_state_set_watchdog_override ?z prj_conf 500 s' = (0, s')"
    using override_retry_does_not_write [OF _ r(1)] by simp
  with r show ?thesis
    by blast
qed

text \<open>
  Claim C31. Provisioning: after a successful \<open>set_secret\<close> or \<open>set_peer\<close> on a loaded state, every later
  \<open>get\<close> that finds the same record in flash, in particular after a reboot, returns the clamped
  scalar and the peer key as given.
\<close>

theorem provisioned_keys_persist:
  fixes s t :: "('h, 'z) persist_scheme"
  assumes "nvs_contract z view" "APP_CRYPTO_BACKEND_CURVE25519 cfg" "length key = 32" "g_loaded s" "g_loaded t"
  shows "(\<forall>s'. persist_state_curve25519_set_secret z cfg (Some key) s = (0, s') \<longrightarrow>
       view (hw t) PERSIST_CURVE_SECRET_ID = view (hw s') PERSIST_CURVE_SECRET_ID \<longrightarrow>
       persist_state_curve25519_get_secret z cfg t = (0, Some (curve25519_ref10_clamp_scalar key), t)) \<and>
     (\<forall>s'. persist_state_curve25519_set_peer z cfg (Some key) s = (0, s') \<longrightarrow>
       view (hw t) PERSIST_CURVE_PEER_ID = view (hw s') PERSIST_CURVE_PEER_ID \<longrightarrow>
       persist_state_curve25519_get_peer z cfg t = (0, Some key, t))"
  using secret_after_set [OF assms(1-4) _ assms(5)] peer_after_set [OF assms(1-4) _ assms(5)] by blast

theorem provisioned_keys_persist_witness:
  "persist_state_curve25519_get_peer sim_board prj_conf
     (snd (persist_state_curve25519_set_peer sim_board prj_conf (Some (replicate 32 7)) (sim_persist\<lparr>g_loaded := True\<rparr>))) =
   (0, Some (replicate 32 7),
    snd (persist_state_curve25519_set_peer sim_board prj_conf (Some (replicate 32 7)) (sim_persist\<lparr>g_loaded := True\<rparr>)))"
proof -
  let ?s = "sim_persist\<lparr>g_loaded := True\<rparr>"
  let ?r = "persist_state_curve25519_set_peer sim_board prj_conf (Some (replicate 32 7)) ?s"
  have cfg: "APP_CRYPTO_BACKEND_CURVE25519 prj_conf"
    by (simp add: prj_conf_def)
  have set: "?r = (0, snd ?r)" "g_loaded (snd ?r)"
    by (simp_all add: persist_state_curve25519_set_peer_def cfg sim_board_def)
  show ?thesis
    using provisioned_keys_persist [OF sim_nvs_contract cfg, of "replicate 32 7" ?s "snd ?r"] set by simp
qed

end
