(* ===== verification/Crypto_Init.thy ===== *)
theory Crypto_Init
  imports Persist_State
begin

text \<open>
  The initialisation of \<open>src/app_crypto.c\<close>: \<open>derive_session_material\<close> and \<open>app_crypto_init\<close>. It runs at the
  very start of \<open>main\<close> and, in the Curve25519 build, brings up the persistence layer before the
  crypto component is ready. The lemmas say what a boot finds of the counters of earlier boots, and
  which keys and initialisation vectors it uses. The free-text log lines (key prefixes) are left out.
\<close>

section \<open>The code\<close>

definition derive_session_material ::
    "'h zephyr \<Rightarrow> app_config \<Rightarrow> u8 list \<Rightarrow> ('h, 'z) persist_scheme \<Rightarrow> ('h, 'z) persist_scheme" where
  "derive_session_material z cfg shared s =
     (let (counter, s) = persist_state_next_session_counter z cfg s;
          s = s\<lparr>session_counter := counter\<rparr>;
          (salt, s) = fallback_session_salt z s;
          s = s\<lparr>session_salt := salt\<rparr>;
          s = s\<lparr>key_buf := session_key_bytes shared counter salt\<rparr>;
          s = s\<lparr>session_mac_key := session_mac_bytes shared counter salt\<rparr>
      in emit (LOG_EVT L_INF ''PQC'' ''SESSION'' [LU counter, LU salt]) s)"

text \<open>Writing the \<open>n\<close> bytes \<open>bs\<close> to the front of a buffer.\<close>

definition overwrite :: "u8 list \<Rightarrow> u8 list \<Rightarrow> u8 list" where
  "overwrite bs buf = bs @ drop (length bs) buf"

text \<open>The last part of \<open>app_crypto_init\<close>, common to the two backends.\<close>

definition install_key :: "('h, 'z) persist_scheme \<Rightarrow> rc \<times> ('h, 'z) persist_scheme" where
  "install_key s =
     (let (rc, ctx) = simple_aes_setkey_enc (aes_ctx s) (key_buf s) (key_len s);
          s = s\<lparr>aes_ctx := ctx\<rparr>
      in if rc \<noteq> 0 then (- EINVAL, s) else (0, s\<lparr>crypto_ready := True\<rparr>))"

text \<open>
  The Curve25519 branch. \<open>get_secret\<close> returns a buffer exactly when it returns 0 (error codes are
  negative), so the case of a non-negative code without a buffer does not arise.
\<close>

definition init_curve25519 ::
    "'h zephyr \<Rightarrow> app_config \<Rightarrow> ('h, 'z) persist_scheme \<Rightarrow> rc \<times> ('h, 'z) persist_scheme" where
  "init_curve25519 z cfg s =
     (let s = s\<lparr>active_backend := APP_CRYPTO_BACKEND_TYPE_CURVE25519\<rparr>;
          (rc, secret, s) = persist_state_curve25519_get_secret z cfg s
      in case secret of
           None \<Rightarrow> (rc, s)
         | Some sec \<Rightarrow>
             if rc < 0 then (rc, s)
             else
             let secret = curve25519_ref10_clamp_scalar sec;
                 (peer_rc, peer, s) = persist_state_curve25519_get_peer z cfg s;
                 (rc, peer_pub) =
                   (if peer_rc = 0 then (int CURVE25519_KEY_SIZE, case peer of Some p \<Rightarrow> p | None \<Rightarrow> [])
                    else parse_hex_string (APP_CURVE25519_STATIC_PEER_PUB_HEX cfg) CURVE25519_KEY_SIZE)
             in if rc < 0 \<or> rc \<noteq> int CURVE25519_KEY_SIZE then (if rc < 0 then rc else - EINVAL, s)
                else
                let (rc, shared) = curve25519_ref10_scalarmult secret peer_pub
                in if rc \<noteq> 0 then (rc, s)
                   else
                   let s = s\<lparr>key_len := CURVE25519_KEY_SIZE\<rparr>;
                       s = derive_session_material z cfg shared s
                   in install_key s)"

definition init_aes :: "app_config \<Rightarrow> ('h, 'z) persist_scheme \<Rightarrow> rc \<times> ('h, 'z) persist_scheme" where
  "init_aes cfg s =
     (let s = s\<lparr>active_backend := APP_CRYPTO_BACKEND_TYPE_AES\<rparr>;
          (rc, key) = parse_hex_string (APP_AES_STATIC_KEY_HEX cfg) APP_CRYPTO_MAX_KEY_BYTES;
          s = s\<lparr>key_buf := overwrite key (key_buf s)\<rparr>
      in if rc < 0 then (rc, s)
         else
         let s = s\<lparr>key_len := nat rc\<rparr>
         in if \<not> (key_len s = 16 \<or> key_len s = 24 \<or> key_len s = 32) then (- EINVAL, s)
            else install_key (s\<lparr>session_counter := 0, session_salt := 0, session_mac_key := replicate 16 0\<rparr>))"

definition app_crypto_init ::
    "'h zephyr \<Rightarrow> app_config \<Rightarrow> ('h, 'z) persist_scheme \<Rightarrow> rc \<times> ('h, 'z) persist_scheme" where
  "app_crypto_init z cfg s =
     (let (rc, seed) = parse_hex_string (APP_AES_STATIC_IV_HEX cfg) APP_CRYPTO_IV_LEN;
          s = s\<lparr>iv_seed := overwrite seed (iv_seed s)\<rparr>
      in if rc < 0 \<or> rc \<noteq> int APP_CRYPTO_IV_LEN then (if rc < 0 then rc else - EINVAL, s)
         else if APP_CRYPTO_BACKEND_CURVE25519 cfg then init_curve25519 z cfg s
         else if APP_USE_AES_ENCRYPTION cfg then init_aes cfg s
         else (0, s\<lparr>active_backend := APP_CRYPTO_BACKEND_TYPE_NONE, crypto_ready := False\<rparr>))"

text \<open>The initial values of the file-scope variables of the two files: RAM after a reset.\<close>

definition crypto_power_on :: "('h, 'z) crypto_scheme \<Rightarrow> ('h, 'z) crypto_scheme" where
  [simp]: "crypto_power_on s = s\<lparr>key_buf := replicate 32 0, key_len := 0, iv_seed := replicate 12 0,
     crypto_ready := False, iv_counter := 0, prng_state := 0x6d5a56a1,
     aes_ctx := \<lparr>round_keys = replicate 240 0, rounds = 0\<rparr>, session_mac_key := replicate 16 0,
     session_counter := 0, session_salt := 0, active_backend := APP_CRYPTO_BACKEND_TYPE_NONE\<rparr>"

definition persist_power_on :: "('h, 'z) persist_scheme \<Rightarrow> ('h, 'z) persist_scheme" where
  "persist_power_on s =
     (crypto_power_on s)\<lparr>trace := [], g_fs := zero_fs, g_blob := zero_blob, g_loaded := False\<rparr>"

section \<open>The AES-only build\<close>

lemma overwrite_full [simp]: "length bs = length buf \<Longrightarrow> overwrite bs buf = bs"
  by (simp add: overwrite_def)

text \<open>The configured strings are well formed.\<close>

definition aes_config :: "app_config \<Rightarrow> u8 list \<Rightarrow> u8 list \<Rightarrow> bool" where
  "aes_config cfg key seed \<longleftrightarrow> \<not> APP_CRYPTO_BACKEND_CURVE25519 cfg \<and> APP_USE_AES_ENCRYPTION cfg \<and>
     parse_hex_string (APP_AES_STATIC_KEY_HEX cfg) 32 = (int (length key), key) \<and>
     (length key = 16 \<or> length key = 24 \<or> length key = 32) \<and>
     parse_hex_string (APP_AES_STATIC_IV_HEX cfg) 12 = (12, seed) \<and> length seed = 12"

text \<open>A reset leaves the trace empty; the lemmas allow any, as \<open>main\<close> logs a line before it starts crypto.\<close>

lemma power_on_trace: "(persist_power_on s)\<lparr>trace := []\<rparr> = persist_power_on s"
  by (simp add: persist_power_on_def)

lemma init_aes_state:
  assumes cfg: "aes_config cfg key seed"
  shows "app_crypto_init z cfg ((persist_power_on s)\<lparr>trace := tr\<rparr>) =
     (0, (persist_power_on s)\<lparr>trace := tr, iv_seed := seed, active_backend := APP_CRYPTO_BACKEND_TYPE_AES,
        key_buf := overwrite key (replicate 32 0), key_len := length key,
        aes_ctx := snd (simple_aes_setkey_enc \<lparr>round_keys = replicate 240 0, rounds = 0\<rparr>
            (overwrite key (replicate 32 0)) (length key)), crypto_ready := True\<rparr>)"
proof -
  have setkey: "fst (simple_aes_setkey_enc ctx k (length key)) = 0" for ctx k
    using cfg by (auto simp: aes_config_def simple_aes_setkey_enc_def Let_def)
  show ?thesis
    using cfg setkey
    by (simp add: app_crypto_init_def init_aes_def install_key_def aes_config_def persist_power_on_def
        APP_CRYPTO_MAX_KEY_BYTES_def case_prod_beta Let_def)
qed

lemma iv_after_cong:
  assumes "prng_state s = prng_state t" "iv_counter s = iv_counter t" "iv_seed s = iv_seed t"
  shows "iv_after n s = iv_after n t"
proof -
  have gen: "fst (generate_iv s) = fst (generate_iv t)"
    if "prng_state s = prng_state t" "iv_counter s = iv_counter t" "iv_seed s = iv_seed t"
    for s :: "('a, 'b) crypto_scheme" and t :: "('c, 'd) crypto_scheme"
    using that by (simp add: generate_iv_def iv_random_loop_0 Let_def)
  have "prng_state (((\<lambda>s. snd (generate_iv s)) ^^ n) s) = prng_state (((\<lambda>s. snd (generate_iv s)) ^^ n) t) \<and>
      iv_counter (((\<lambda>s. snd (generate_iv s)) ^^ n) s) = iv_counter (((\<lambda>s. snd (generate_iv s)) ^^ n) t) \<and>
      iv_seed (((\<lambda>s. snd (generate_iv s)) ^^ n) s) = iv_seed (((\<lambda>s. snd (generate_iv s)) ^^ n) t)"
    using assms by (induction n) (simp_all add: generate_iv_state)
  then show ?thesis
    unfolding iv_after_def by (intro gen) simp_all
qed

section \<open>The Curve25519 build\<close>

text \<open>Two states with the same variables of \<open>src/app_crypto.c\<close>.\<close>

definition crypto_same :: "('h, 'z) crypto_scheme \<Rightarrow> ('h, 'z) crypto_scheme \<Rightarrow> bool" where
  "crypto_same s t \<longleftrightarrow> prng_state t = prng_state s \<and> iv_counter t = iv_counter s \<and> iv_seed t = iv_seed s \<and>
     crypto_ready t = crypto_ready s \<and> active_backend t = active_backend s \<and> aes_ctx t = aes_ctx s"

lemma crypto_same_simps [simp]:
  "crypto_same s s" "crypto_same s (emit e t) \<longleftrightarrow> crypto_same s t" "crypto_same s (t\<lparr>hw := h\<rparr>) \<longleftrightarrow> crypto_same s t"
  by (simp_all add: crypto_same_def)

lemma crypto_same_persist_simps [simp]:
  "crypto_same s (t\<lparr>g_fs := fs\<rparr>) \<longleftrightarrow> crypto_same s t" "crypto_same s (t\<lparr>g_blob := b\<rparr>) \<longleftrightarrow> crypto_same s t"
  "crypto_same s (t\<lparr>g_loaded := l\<rparr>) \<longleftrightarrow> crypto_same s t"
  by (simp_all add: crypto_same_def)

lemma crypto_same_trans: "crypto_same s t \<Longrightarrow> crypto_same t u \<Longrightarrow> crypto_same s u"
  by (simp add: crypto_same_def)

lemma crypto_same_enabled: "crypto_same s t \<Longrightarrow> app_crypto_is_enabled t \<longleftrightarrow> app_crypto_is_enabled s"
  by (simp add: crypto_same_def app_crypto_is_enabled_def)

lemma unsealed_commit_same: "\<not> sealed_storage cfg s \<Longrightarrow> crypto_same s (snd (persist_commit_locked z cfg s))"
  by (auto simp: persist_commit_locked_def persist_store_blob_def sealed_storage_def case_prod_beta Let_def)

text \<open>The stored record is useless to a state whose crypto is not ready: absent or encrypted.\<close>

definition unreadable_record :: "('h \<Rightarrow> nat \<Rightarrow> u8 list option) \<Rightarrow> 'h \<Rightarrow> bool" where
  "unreadable_record view h \<longleftrightarrow> (\<forall>d. view h PERSIST_RECORD_ID = Some d \<longrightarrow> length d = 32)"

definition good_flash :: "'h zephyr \<Rightarrow> ('h \<Rightarrow> nat \<Rightarrow> u8 list option) \<Rightarrow> bool" where
  "good_flash z view \<longleftrightarrow> nvs_contract z view \<and> nvs_writable z \<and> flash_healthy z"

lemma init_unreadable:
  fixes s :: "('h, 'z) persist_scheme"
  assumes z: "good_flash z view" and s: "\<not> g_loaded s" "\<not> app_crypto_is_enabled s" "unreadable_record view (hw s)"
  shows "fst (init_fs_if_needed z cfg s) = 0" (is ?rc)
    and "synced z cfg view (snd (init_fs_if_needed z cfg s))" (is ?synced)
    and "g_blob (snd (init_fs_if_needed z cfg s)) = fresh_blob" (is ?blob)
    and "crypto_same s (snd (init_fs_if_needed z cfg s))" (is ?same)
    and "\<And>i. i \<noteq> PERSIST_RECORD_ID \<Longrightarrow> view (hw (snd (init_fs_if_needed z cfg s))) i = view (hw s) i"
proof -
  have z': "nvs_contract z view" "nvs_writable z" "flash_healthy z"
    using z by (simp_all add: good_flash_def)
  have bad: "persist_load_blob z cfg (s\<lparr>g_fs := fs, hw := h\<rparr>) = (- ENOENT, None)" if "view h = view (hw s)" for fs h
  proof -
    have "\<not> sealed_storage cfg (s\<lparr>g_fs := fs, hw := h\<rparr>)"
      using s(2) by (simp add: sealed_storage_def app_crypto_is_enabled_def)
    then show ?thesis
      using s(3) that persist_load_none [OF z'(1), of "s\<lparr>g_fs := fs, hw := h\<rparr>"]
        persist_load_sealed_unready [OF z'(1), of "s\<lparr>g_fs := fs, hw := h\<rparr>"]
      by (cases "view h PERSIST_RECORD_ID") (auto simp: unreadable_record_def)
  qed
  show ?rc ?synced ?blob
    using init_starts_afresh [OF z'(3,1,2) s(1)] bad by fastforce+
  obtain h fs where init: "init_fs_if_needed z cfg s = (0, adopt_blob z cfg (s\<lparr>g_fs := fs, hw := h\<rparr>))"
    and view: "view h = view (hw s)"
    by (rule init_healthy [OF z'(3,1) s(1)])
  let ?t = "s\<lparr>g_fs := fs, hw := h, g_blob := fresh_blob\<rparr>"
  have adopt: "adopt_blob z cfg (s\<lparr>g_fs := fs, hw := h\<rparr>) = (snd (persist_commit_locked z cfg ?t))\<lparr>g_loaded := True\<rparr>"
    by (rule adopt_missing [of z cfg "s\<lparr>g_fs := fs, hw := h\<rparr>", simplified]) (simp add: bad [OF view])
  have "crypto_same ?t (snd (persist_commit_locked z cfg ?t))"
    using s(2) by (intro unsealed_commit_same) (simp add: sealed_storage_def app_crypto_is_enabled_def)
  then show ?same
    unfolding init adopt by (simp add: crypto_same_def)
  show "view (hw (snd (init_fs_if_needed z cfg s))) i = view (hw s) i" if "i \<noteq> PERSIST_RECORD_ID" for i
    using commit_sound(3) [OF z'(1) store_writable [OF z'(2)], of i cfg ?t] that
    unfolding init adopt by (simp add: view)
qed

lemma generate_succeeds [simp]: "fst (curve_secret_generate z cfg h) = 0"
  by (simp add: curve_secret_generate_def case_prod_beta)

lemma length_generated [simp]: "length (snd (curve_secret_generate z cfg h)) = 32"
proof -
  have "length (derive_scalar_from_device_id z cfg h) = 32"
    by (simp add: derive_scalar_from_device_id_def Let_def length_concat CURVE25519_KEY_SIZE_def case_prod_beta
        o_def sum_list_triv)
  moreover have "length (snd (parse_hex_secret (Some h) 32)) = 32" if "fst (parse_hex_secret (Some h) 32) = 0" for h
    using that by (auto simp: parse_hex_secret_def Let_def case_prod_beta hex_decode_length split: if_splits)
  ultimately show ?thesis
    by (simp add: curve_secret_generate_def case_prod_beta CURVE25519_KEY_SIZE_def)
qed

text \<open>The stored scalar, when there is one.\<close>

definition stored_scalar :: "('h \<Rightarrow> nat \<Rightarrow> u8 list option) \<Rightarrow> u8 list \<Rightarrow> 'h \<Rightarrow> bool" where
  "stored_scalar view sec h \<longleftrightarrow> length sec = 32 \<and>
     view h PERSIST_CURVE_SECRET_ID = Some (key_record PERSIST_CURVE_SECRET_MAGIC sec)"

lemma stored_scalar_read:
  assumes z: "nvs_contract z view"
    and r: "fst (nvs_read z fs PERSIST_CURVE_SECRET_ID 36 h) = 36"
      "un_le32 (snd (nvs_read z fs PERSIST_CURVE_SECRET_ID 36 h)) = PERSIST_CURVE_SECRET_MAGIC"
  shows "stored_scalar view (drop 4 (snd (nvs_read z fs PERSIST_CURVE_SECRET_ID 36 h))) h"
proof -
  obtain d where d: "view h PERSIST_CURVE_SECRET_ID = Some d" "length d = 36"
    using r(1) by (auto simp: nvs_contract_read [OF z] split: option.splits)
  then have "le32 PERSIST_CURVE_SECRET_MAGIC @ drop 4 d = d"
    using r(2) le32_un_le32 [of d] by (simp add: nvs_contract_read [OF z])
  with d show ?thesis
    by (simp add: stored_scalar_def key_record_def nvs_contract_read [OF z])
qed

lemma stored_scalar_unique: "stored_scalar view j h \<Longrightarrow> stored_scalar view k h \<Longrightarrow> j = k"
  by (simp add: stored_scalar_def key_record_def)

lemma stored_scalar_nvs:
  "nvs_contract z view \<Longrightarrow> stored_scalar view k h \<Longrightarrow>
     nvs_read z fs PERSIST_CURVE_SECRET_ID 36 h = (36, le32 PERSIST_CURVE_SECRET_MAGIC @ k)"
  by (simp add: stored_scalar_def key_record_def nvs_contract_read)

lemmas record_ids = PERSIST_RECORD_ID_def PERSIST_CURVE_SECRET_ID_def PERSIST_CURVE_PEER_ID_def

lemma get_secret_unreadable:
  fixes s :: "('h, 'z) persist_scheme"
  assumes z: "good_flash z view" and cfg: "APP_CRYPTO_BACKEND_CURVE25519 cfg"
    and s: "\<not> g_loaded s" "\<not> app_crypto_is_enabled s" "unreadable_record view (hw s)"
  obtains sec t where "persist_state_curve25519_get_secret z cfg s = (0, Some sec, t)" "crypto_same s t"
    "g_loaded t" "g_blob t = fresh_blob" "view (hw t) PERSIST_CURVE_PEER_ID = view (hw s) PERSIST_CURVE_PEER_ID"
    "stored_scalar view sec (hw t)" "\<And>k. stored_scalar view k (hw s) \<Longrightarrow> sec = k"
proof -
  define t where "t = snd (init_fs_if_needed z cfg s)"
  have z': "nvs_contract z view" "nvs_writable z"
    using z by (simp_all add: good_flash_def)
  have init: "init_fs_if_needed z cfg s = (0, t)" and t: "g_loaded t" "g_blob t = fresh_blob" "crypto_same s t"
    and flash: "\<And>i. i \<noteq> PERSIST_RECORD_ID \<Longrightarrow> view (hw t) i = view (hw s) i"
    using init_unreadable [OF z s, where cfg = cfg] by (simp_all add: t_def prod_eq_iff synced_def)
  then have stored: "stored_scalar view k (hw t) \<longleftrightarrow> stored_scalar view k (hw s)" for k
    by (simp add: stored_scalar_def record_ids)
  let ?r = "nvs_read z (g_fs t) PERSIST_CURVE_SECRET_ID 36 (hw t)"
  show ?thesis
  proof (cases "fst ?r = 36 \<and> un_le32 (snd ?r) = PERSIST_CURVE_SECRET_MAGIC")
    case True
    then have k: "stored_scalar view (drop 4 (snd ?r)) (hw t)"
      using stored_scalar_read [OF z'(1)] by blast
    have "persist_state_curve25519_get_secret z cfg s = (0, Some (drop 4 (snd ?r)), t)"
      using cfg True by (simp add: persist_state_curve25519_get_secret_def init case_prod_beta Let_def)
    then show ?thesis
      by (rule that) (use t k stored flash in \<open>auto simp: record_ids dest: stored_scalar_unique\<close>)
  next
    case False
    then have none: "\<not> stored_scalar view k (hw t)" for k
      using stored_scalar_nvs [OF z'(1)] by auto
    define sec where "sec = snd (curve_secret_generate z cfg (hw t))"
    let ?w = "nvs_write z (g_fs t) PERSIST_CURVE_SECRET_ID (le32 PERSIST_CURVE_SECRET_MAGIC @ sec) (hw t)"
    have w: "0 \<le> fst ?w"
      using z'(2) by (simp add: nvs_writable_def)
    then have view: "view (snd ?w) = (view (hw t))(PERSIST_CURVE_SECRET_ID := Some (le32 PERSIST_CURVE_SECRET_MAGIC @ sec))"
      by (rule nvs_contract_write [OF z'(1)])
    have "persist_state_curve25519_get_secret z cfg s = (0, Some sec, t\<lparr>hw := snd ?w\<rparr>)"
      using cfg w False by (auto simp: persist_state_curve25519_get_secret_def init sec_def case_prod_beta Let_def)
    then show ?thesis
      by (rule that) (use t none stored flash view in \<open>auto simp: record_ids stored_scalar_def key_record_def sec_def\<close>)
  qed
qed

text \<open>The peer key a boot uses: the provisioned one if there is a valid record, else the configured one.\<close>

definition peer_key :: "u8 list \<Rightarrow> ('h \<Rightarrow> nat \<Rightarrow> u8 list option) \<Rightarrow> 'h \<Rightarrow> u8 list" where
  "peer_key static view h =
     (case view h PERSIST_CURVE_PEER_ID of
        None \<Rightarrow> static
      | Some d \<Rightarrow> if length d = 36 \<and> un_le32 d = PERSIST_CURVE_PEER_MAGIC then drop 4 d else static)"

definition curve_config :: "app_config \<Rightarrow> u8 list \<Rightarrow> u8 list \<Rightarrow> bool" where
  "curve_config cfg seed static \<longleftrightarrow> APP_CRYPTO_BACKEND_CURVE25519 cfg \<and>
     parse_hex_string (APP_AES_STATIC_IV_HEX cfg) 12 = (12, seed) \<and> length seed = 12 \<and>
     parse_hex_string (APP_CURVE25519_STATIC_PEER_PUB_HEX cfg) 32 = (32, static)"

lemma get_peer_loaded:
  assumes "nvs_contract z view" "APP_CRYPTO_BACKEND_CURVE25519 cfg" "g_loaded t"
  shows "persist_state_curve25519_get_peer z cfg t =
     (case view (hw t) PERSIST_CURVE_PEER_ID of
        None \<Rightarrow> (- ENOENT, None, t)
      | Some d \<Rightarrow> if length d = 36 \<and> un_le32 d = PERSIST_CURVE_PEER_MAGIC then (0, Some (drop 4 d), t)
                 else (- ENOENT, None, t))"
  using assms by (auto simp: persist_state_curve25519_get_peer_def nvs_contract_read Let_def split: option.splits)

lemma peer_choice:
  assumes z: "nvs_contract z view" and cfg: "curve_config cfg seed static" and t: "g_loaded t"
  obtains prc peer where "persist_state_curve25519_get_peer z cfg t = (prc, peer, t)"
    "(if prc = 0 then (int CURVE25519_KEY_SIZE, case peer of Some p \<Rightarrow> p | None \<Rightarrow> [])
      else parse_hex_string (APP_CURVE25519_STATIC_PEER_PUB_HEX cfg) CURVE25519_KEY_SIZE) =
     (32, peer_key static view (hw t))"
  using cfg get_peer_loaded [OF z _ t, of cfg]
  by (cases "view (hw t) PERSIST_CURVE_PEER_ID")
    (auto simp: curve_config_def peer_key_def CURVE25519_KEY_SIZE_def split: if_splits intro: that)

text \<open>The first output of the generator after power-on, which is the session salt of every boot.\<close>

definition boot_salt :: u32 where
  "boot_salt = xorshift (lcg 0x6d5a56a1)"

lemma boot_salt_value: "boot_salt = 0x47CB2DF5"
  by (simp add: boot_salt_def xorshift_def lcg_def Let_def)

definition boot_session :: "u8 list \<Rightarrow> ('h, 'z) persist_scheme \<Rightarrow> bool" where
  \<comment> \<open>the crypto variables after a boot with this shared secret\<close>
  "boot_session shared s \<longleftrightarrow> session_counter s = 1 \<and> session_salt s = boot_salt \<and>
     session_mac_key s = session_mac_bytes shared 1 boot_salt \<and>
     aes_ctx s = snd (simple_aes_setkey_enc \<lparr>round_keys = replicate 240 0, rounds = 0\<rparr>
       (session_key_bytes shared 1 boot_salt) 32) \<and>
     prng_state s = lcg 0x6d5a56a1 \<and> iv_counter s = 0 \<and> crypto_ready s \<and>
     active_backend s = APP_CRYPTO_BACKEND_TYPE_CURVE25519"

lemma derive_first_session:
  fixes t :: "('h, 'z) persist_scheme"
  assumes t: "g_loaded t" "g_blob t = fresh_blob" "\<not> app_crypto_is_enabled t" "prng_state t = 0x6d5a56a1"
    and z: "nvs_contract z view" "nvs_writable z"
    and u_def: "u = derive_session_material z cfg shared t"
  shows "session_counter u = 1" "session_salt u = boot_salt" "key_buf u = session_key_bytes shared 1 boot_salt"
    "session_mac_key u = session_mac_bytes shared 1 boot_salt" "prng_state u = lcg 0x6d5a56a1"
    "iv_counter u = iv_counter t" "iv_seed u = iv_seed t" "aes_ctx u = aes_ctx t" "key_len u = key_len t"
    "active_backend u = active_backend t" "crypto_ready u = crypto_ready t"
    "g_loaded u" "g_blob u = fresh_blob\<lparr>blob_session_counter := 1\<rparr>"
    "\<And>i. i \<noteq> PERSIST_RECORD_ID \<Longrightarrow> view (hw u) i = view (hw t) i"
proof -
  let ?t = "t\<lparr>g_blob := fresh_blob\<lparr>blob_session_counter := 1\<rparr>\<rparr>"
  let ?c = "snd (persist_commit_locked z cfg ?t)"
  have counter: "persist_state_next_session_counter z cfg t = (1, ?c)"
    using t by (simp add: persist_state_next_session_counter_def fresh_blob_def zero_blob_def Let_def)
  have same: "crypto_same ?t ?c"
    using t(3) by (intro unsealed_commit_same) (simp add: sealed_storage_def app_crypto_is_enabled_def)
  have blob: "g_loaded ?c" "g_blob ?c = fresh_blob\<lparr>blob_session_counter := 1\<rparr>"
    using t by (simp_all add: commit_same)
  have "xorshift (lcg (prng_state ?c)) = boot_salt" "prng_state ?c = 0x6d5a56a1"
    using same t(4) by (simp_all add: crypto_same_def boot_salt_def)
  moreover have "boot_salt \<noteq> 0"
    by (simp add: boot_salt_value)
  ultimately have u: "u = emit (LOG_EVT L_INF ''PQC'' ''SESSION'' [LU (1 :: u32), LU boot_salt])
     (?c\<lparr>session_counter := 1, prng_state := lcg 0x6d5a56a1, session_salt := boot_salt,
        key_buf := session_key_bytes shared 1 boot_salt, session_mac_key := session_mac_bytes shared 1 boot_salt\<rparr>)"
    by (simp add: u_def derive_session_material_def counter fallback_session_salt_def next_pseudo_entropy_def Let_def)
  show "session_counter u = 1" "session_salt u = boot_salt" "key_buf u = session_key_bytes shared 1 boot_salt"
    "session_mac_key u = session_mac_bytes shared 1 boot_salt" "prng_state u = lcg 0x6d5a56a1"
    "iv_counter u = iv_counter t" "iv_seed u = iv_seed t" "aes_ctx u = aes_ctx t"
    "active_backend u = active_backend t" "crypto_ready u = crypto_ready t"
    "g_loaded u" "g_blob u = fresh_blob\<lparr>blob_session_counter := 1\<rparr>"
    using same blob by (simp_all add: u crypto_same_def)
  show "key_len u = key_len t"
    using commit_frame [of ?t z cfg] by (auto simp: u same_but_iv_def)
  show "view (hw u) i = view (hw t) i" if "i \<noteq> PERSIST_RECORD_ID" for i
    using commit_sound(3) [OF z(1) store_writable [OF z(2)], of i cfg ?t] that by (simp add: u)
qed

lemma curve_boot:
  fixes s :: "('h, 'z) persist_scheme"
  assumes z: "good_flash z view" and cfg: "curve_config cfg seed static" and s: "unreadable_record view (hw s)"
  obtains sec s' where "app_crypto_init z cfg ((persist_power_on s)\<lparr>trace := tr\<rparr>) = (0, s')"
    "\<And>k. stored_scalar view k (hw s) \<Longrightarrow> sec = k" "stored_scalar view sec (hw s')"
    "view (hw s') PERSIST_CURVE_PEER_ID = view (hw s) PERSIST_CURVE_PEER_ID"
    "boot_session (snd (curve25519_ref10_scalarmult (curve25519_ref10_clamp_scalar sec) (peer_key static view (hw s)))) s'"
    "iv_seed s' = seed" "g_loaded s'" "g_blob s' = fresh_blob\<lparr>blob_session_counter := 1\<rparr>"
proof -
  have z': "nvs_contract z view" "nvs_writable z"
    using z by (simp_all add: good_flash_def)
  have cfg': "APP_CRYPTO_BACKEND_CURVE25519 cfg" "parse_hex_string (APP_AES_STATIC_IV_HEX cfg) 12 = (12, seed)" "length seed = 12"
    using cfg by (simp_all add: curve_config_def)
  let ?p = "(persist_power_on s)\<lparr>trace := tr\<rparr>"
  let ?q = "?p\<lparr>iv_seed := seed, active_backend := APP_CRYPTO_BACKEND_TYPE_CURVE25519\<rparr>"
  have q: "\<not> g_loaded ?q" "\<not> app_crypto_is_enabled ?q" "unreadable_record view (hw ?q)" "hw ?q = hw s"
    using s by (simp_all add: persist_power_on_def app_crypto_is_enabled_def)
  obtain sec t where secret: "persist_state_curve25519_get_secret z cfg ?q = (0, Some sec, t)"
    and t: "crypto_same ?q t" "g_loaded t" "g_blob t = fresh_blob"
      "view (hw t) PERSIST_CURVE_PEER_ID = view (hw s) PERSIST_CURVE_PEER_ID" "stored_scalar view sec (hw t)"
    and sec: "\<And>k. stored_scalar view k (hw s) \<Longrightarrow> sec = k"
    by (rule get_secret_unreadable [OF z cfg'(1) q(1-3)]) (auto simp: q(4))
  obtain prc peer where peer: "persist_state_curve25519_get_peer z cfg t = (prc, peer, t)"
    and pick: "(if prc = 0 then (int CURVE25519_KEY_SIZE, case peer of Some p \<Rightarrow> p | None \<Rightarrow> [])
        else parse_hex_string (APP_CURVE25519_STATIC_PEER_PUB_HEX cfg) CURVE25519_KEY_SIZE) =
      (32, peer_key static view (hw t))"
    by (rule peer_choice [OF z'(1) cfg t(2)])
  define shared where "shared = snd (curve25519_ref10_scalarmult (curve25519_ref10_clamp_scalar sec) (peer_key static view (hw t)))"
  have mult: "curve25519_ref10_scalarmult (curve25519_ref10_clamp_scalar sec) (peer_key static view (hw t)) = (0, shared)"
    by (simp add: shared_def curve25519_ref10_scalarmult_def)
  let ?t = "t\<lparr>key_len := CURVE25519_KEY_SIZE\<rparr>"
  define u where "u = derive_session_material z cfg shared ?t"
  have t': "g_loaded ?t" "g_blob ?t = fresh_blob" "\<not> app_crypto_is_enabled ?t" "prng_state ?t = 0x6d5a56a1"
    using t by (auto simp: crypto_same_def persist_power_on_def app_crypto_is_enabled_def)
  note u = derive_first_session [OF t' z' u_def]
  let ?k = "simple_aes_setkey_enc (aes_ctx t) (session_key_bytes shared 1 boot_salt) 32"
  have "fst ?k = 0"
    by (simp add: simple_aes_setkey_enc_def Let_def)
  then have install: "install_key u = (0, u\<lparr>aes_ctx := snd ?k, crypto_ready := True\<rparr>)"
    using u by (simp add: install_key_def CURVE25519_KEY_SIZE_def case_prod_beta Let_def)
  have "app_crypto_init z cfg ?p = init_curve25519 z cfg (?p\<lparr>iv_seed := seed\<rparr>)"
    using cfg' by (simp add: app_crypto_init_def APP_CRYPTO_IV_LEN_def persist_power_on_def Let_def)
  also have "\<dots> = install_key u"
    using pick by (simp add: init_curve25519_def secret peer mult u_def CURVE25519_KEY_SIZE_def Let_def)
  finally have init: "app_crypto_init z cfg ?p = (0, u\<lparr>aes_ctx := snd ?k, crypto_ready := True\<rparr>)"
    by (simp only: install)
  have ctx: "aes_ctx t = \<lparr>round_keys = replicate 240 0, rounds = 0\<rparr>" "iv_counter t = 0" "iv_seed t = seed"
    "active_backend t = APP_CRYPTO_BACKEND_TYPE_CURVE25519"
    using t(1) by (simp_all add: crypto_same_def persist_power_on_def)
  have peer_s: "peer_key static view (hw t) = peer_key static view (hw s)"
    using t(4) by (simp add: peer_key_def)
  show ?thesis
  proof (rule that [OF init sec])
    show "boot_session (snd (curve25519_ref10_scalarmult (curve25519_ref10_clamp_scalar sec) (peer_key static view (hw s))))
        (u\<lparr>aes_ctx := snd ?k, crypto_ready := True\<rparr>)"
      using u ctx by (simp add: boot_session_def flip: peer_s shared_def)
  qed (use u ctx t in \<open>simp_all add: stored_scalar_def record_ids\<close>)
qed

section \<open>Equal generators, equal keystream\<close>

lemma ctr_process_two_time:
  assumes "length iv = 12" "i < length m" "i < length m'"
  shows "ctr_process ctx m iv ! i XOR ctr_process ctx m' iv ! i = m ! i XOR m' ! i"
  using assms by (simp add: ctr_process_nth xor.assoc xor.commute xor.left_commute)

lemma encrypt_same_generator:
  fixes s :: "('h, 'y) crypto_scheme" and t :: "('i, 'z) crypto_scheme"
  assumes "app_crypto_is_enabled s" "app_crypto_is_enabled t" "aes_ctx s = aes_ctx t"
    and "prng_state s = prng_state t" "iv_counter s = iv_counter t" "iv_seed s = iv_seed t"
    and m: "m \<noteq> []" "m' \<noteq> []" "length m \<le> cap" "length m' \<le> cap"
  shows "\<exists>c c' iv u u'. app_crypto_encrypt_buffer m cap s = (0, Some (c, iv), u) \<and>
     app_crypto_encrypt_buffer m' cap t = (0, Some (c', iv), u') \<and>
     (\<forall>i < min (length m) (length m'). c ! i XOR c' ! i = m ! i XOR m' ! i)"
proof -
  have "fst (generate_iv t) = fst (generate_iv s)"
    using iv_after_cong [OF assms(4-6), of 0] by (simp add: iv_after_def)
  then show ?thesis
    using assms by (simp add: encrypt_success ctr_process_two_time)
qed

section \<open>Properties\<close>

text \<open>
  Claim C18. In the AES build every boot repeats the keystream of every other one: whatever the
  history and the hardware, initialisation from power-on succeeds with the same key schedule and the
  same sequence of IVs, and the xor of the first ciphertexts of two boots is the xor of the plaintexts.
\<close>

theorem aes_boots_share_keystream:
  fixes s t :: "('h, 'z) persist_scheme"
  assumes "aes_config cfg key seed" "m \<noteq> []" "m' \<noteq> []" "length m \<le> cap" "length m' \<le> cap"
  shows "fst (app_crypto_init z cfg (persist_power_on s)) = 0 \<and>
     (\<forall>n. iv_after n (snd (app_crypto_init z cfg (persist_power_on s))) =
          iv_after n (snd (app_crypto_init z cfg (persist_power_on t)))) \<and>
     (\<exists>c c' iv u u'.
        app_crypto_encrypt_buffer m cap (snd (app_crypto_init z cfg (persist_power_on s))) = (0, Some (c, iv), u) \<and>
        app_crypto_encrypt_buffer m' cap (snd (app_crypto_init z cfg (persist_power_on t))) = (0, Some (c', iv), u') \<and>
        (\<forall>i < min (length m) (length m'). c ! i XOR c' ! i = m ! i XOR m' ! i))"
  unfolding init_aes_state [OF assms(1), where tr = "[]", unfolded power_on_trace] using assms(2-5)
  by (intro conjI allI iv_after_cong encrypt_same_generator)
    (simp_all add: persist_power_on_def app_crypto_is_enabled_def)

lemma kconfig_aes_config:
  "aes_config kconfig_defaults [0x00, 0x11, 0x22, 0x33, 0x44, 0x55, 0x66, 0x77, 0x88, 0x99,
      0xAA, 0xBB, 0xCC, 0xDD, 0xEE, 0xFF, 0x00, 0x11, 0x22, 0x33, 0x44, 0x55, 0x66, 0x77, 0x88, 0x99,
      0xAA, 0xBB, 0xCC, 0xDD, 0xEE, 0xFF] [0, 1, 2, 3, 4, 5, 6, 7, 8, 9, 10, 11]"
  by (simp add: aes_config_def kconfig_defaults_def parse_hex_string_def safe_strlen_def
      APP_CRYPTO_MAX_HEX_CHARS_def APP_CRYPTO_MAX_KEY_BYTES_def hex_value_def numeral_eq_Suc [of Num.One])

theorem aes_boots_share_keystream_witness:
  "fst (app_crypto_init sim_board kconfig_defaults (persist_power_on sim_persist)) = 0"
  using aes_boots_share_keystream [OF kconfig_aes_config, of "[1]" "[2]" 1 sim_board sim_persist sim_persist] by simp

text \<open>
  Claim C19. In the Curve25519 build a boot that finds the record absent or encrypted starts from
  fresh counters: the session number is 1 and the salt the first output of the generator, each time.
  Two such boots with the same stored keys therefore derive the same session keys and use the same
  IVs, although the code counts sessions in flash to tell them apart.
\<close>

theorem curve_boots_repeat_session:
  fixes s t :: "('h, 'z) persist_scheme"
  assumes z: "good_flash z view" and cfg: "curve_config cfg seed static"
    and s: "unreadable_record view (hw s)" and t: "unreadable_record view (hw t)"
    and keys: "stored_scalar view sec (hw s)" "stored_scalar view sec (hw t)"
      "view (hw t) PERSIST_CURVE_PEER_ID = view (hw s) PERSIST_CURVE_PEER_ID"
  shows "(case (app_crypto_init z cfg (persist_power_on s), app_crypto_init z cfg (persist_power_on t)) of
      ((rc, s'), (rc', t')) \<Rightarrow> rc = 0 \<and> rc' = 0 \<and> app_crypto_get_session_counter s' = 1 \<and>
        app_crypto_get_session_salt s' = 0x47CB2DF5 \<and> session_mac_key s' = session_mac_key t' \<and>
        aes_ctx s' = aes_ctx t' \<and> (\<forall>n. iv_after n s' = iv_after n t'))"
proof -
  let ?shared = "snd (curve25519_ref10_scalarmult (curve25519_ref10_clamp_scalar sec) (peer_key static view (hw s)))"
  obtain s' where s': "app_crypto_init z cfg (persist_power_on s) = (0, s')" "boot_session ?shared s'" "iv_seed s' = seed"
    by (rule curve_boot [OF z cfg s, where tr = "[]", unfolded power_on_trace]) (use keys(1) in blast)
  obtain t' where t': "app_crypto_init z cfg (persist_power_on t) = (0, t')" "boot_session ?shared t'" "iv_seed t' = seed"
    by (rule curve_boot [OF z cfg t, where tr = "[]", unfolded power_on_trace]) (use keys in \<open>auto simp: peer_key_def\<close>)
  have "iv_after n s' = iv_after n t'" for n
    using s' t' by (intro iv_after_cong) (simp_all add: boot_session_def)
  then show ?thesis
    using s' t' by (simp add: boot_session_def app_crypto_get_session_counter_def app_crypto_get_session_salt_def
        boot_salt_value)
qed

lemma prj_curve_config:
  "curve_config prj_conf [0, 1, 2, 3, 4, 5, 6, 7, 8, 9, 10, 11]
     [0xDE, 0x9E, 0xDB, 0x7D, 0x7B, 0x7D, 0xC1, 0xB4, 0xD3, 0x5B, 0x61, 0xC2, 0xEC, 0xE4, 0x35, 0x37,
      0x3F, 0x83, 0x43, 0xC8, 0x5B, 0x78, 0x67, 0x4D, 0xAD, 0xFC, 0x7E, 0x14, 0x6F, 0x88, 0x2B, 0x4F]"
  by (simp add: curve_config_def prj_conf_def kconfig_defaults_def parse_hex_string_def safe_strlen_def
      APP_CRYPTO_MAX_HEX_CHARS_def APP_CRYPTO_MAX_KEY_BYTES_def hex_value_def numeral_eq_Suc [of Num.One])

lemma sim_good_flash: "good_flash sim_board sim_flash"
  by (simp add: good_flash_def sim_contracts)

definition sim_provisioned :: "(sim, unit) persist_scheme" where
  "sim_provisioned = sim_persist\<lparr>hw := sim_boot\<lparr>sim_flash :=
     [PERSIST_CURVE_SECRET_ID \<mapsto> key_record PERSIST_CURVE_SECRET_MAGIC (replicate 32 7)]\<rparr>\<rparr>"

lemma sim_provisioned_flash: "unreadable_record sim_flash (hw sim_provisioned)"
    "stored_scalar sim_flash (replicate 32 7) (hw sim_provisioned)"
  by (simp_all add: sim_provisioned_def unreadable_record_def stored_scalar_def record_ids)

theorem curve_boots_repeat_session_witness:
  "app_crypto_get_session_counter (snd (app_crypto_init sim_board prj_conf (persist_power_on sim_provisioned))) = 1"
  using curve_boots_repeat_session [OF sim_good_flash prj_curve_config sim_provisioned_flash(1) sim_provisioned_flash(1)
      sim_provisioned_flash(2) sim_provisioned_flash(2) refl]
  by (auto split: prod.splits)

end
