(* ===== verification/Watchdog_Ctrl.thy ===== *)
theory Watchdog_Ctrl
  imports Crypto_Init
begin

text \<open>
  \<open>src/watchdog_ctrl.c\<close>: the driver of the STM32 independent watchdog. The file keeps the feed switch,
  the channel of the Zephyr watchdog API and the timeout in force. The registers of the peripheral
  and the watchdog API are the parameter \<open>z\<close>; the computation of prescaler and reload value keeps the
  C widths. The loop that waits for the peripheral has no bound of its own, so it and its callers
  return an option, \<open>None\<close> standing for a wait that never ends.
\<close>

section \<open>The code\<close>

record 'h watchdog = "'h persist" +
  feed_enabled :: bool
  wdt_channel_id :: int
  current_timeout_ms :: u32

definition IWDG_RELOAD_MAX :: u32 where
  "IWDG_RELOAD_MAX = 0x0FFF"

definition IWDG_PRESCALER_MIN :: u32 where
  "IWDG_PRESCALER_MIN = 4"

definition IWDG_PRESCALER_MAX :: u32 where
  "IWDG_PRESCALER_MAX = 256"

definition IWDG_SR_UPDATE_TIMEOUT_MS :: "app_config \<Rightarrow> u32" where
  "IWDG_SR_UPDATE_TIMEOUT_MS cfg = 6 * IWDG_PRESCALER_MAX * 1000 div LSI_VALUE cfg"

text \<open>The search for the prescaler: the final divider and shift, or \<open>None\<close> for the early \<open>-EINVAL\<close>.\<close>

function iwdg_prescaler_loop :: "u32 \<Rightarrow> u32 \<Rightarrow> u32 \<Rightarrow> (u32 \<times> u32) option" where
  "iwdg_prescaler_loop ticks divider shift =
     (if IWDG_RELOAD_MAX < ticks div divider
      then let shift = shift + 1;
               divider = push_bit (unat shift) IWDG_PRESCALER_MIN
           in if IWDG_PRESCALER_MAX < divider then None else iwdg_prescaler_loop ticks divider shift
      else Some (divider, shift))"
  by pat_completeness auto

text \<open>
  Termination of the loop for every start: the shift grows to at most 6 before the divider is too
  large, and a shift that moves all bits out leaves the divider 0, with which the loop ends.
\<close>

lemma shifted_divider_large:
  assumes "7 \<le> n" "n < 30"
  shows "IWDG_PRESCALER_MAX < push_bit n IWDG_PRESCALER_MIN"
proof -
  have "(256 :: nat) < 4 * 2 ^ 7"
    by simp
  also have "\<dots> \<le> 4 * 2 ^ n"
    using power_increasing [OF assms(1), of "2 :: nat"] by simp
  finally have low: "256 < 4 * (2 :: nat) ^ n" .
  have "4 * (2 :: nat) ^ n \<le> 4 * 2 ^ 29"
    using assms(2) by (intro mult_left_mono power_increasing) auto
  then have "4 * (2 :: nat) ^ n < 2 ^ 32"
    by simp
  moreover have "push_bit n (4 :: u32) = word_of_nat (4 * 2 ^ n)"
    by (simp add: push_bit_eq_mult)
  ultimately have "unat (push_bit n (4 :: u32)) = 4 * 2 ^ n"
    using of_nat_inverse [of "4 * 2 ^ n" "push_bit n 4 :: u32"] by simp
  with low show ?thesis
    by (simp add: IWDG_PRESCALER_MAX_def IWDG_PRESCALER_MIN_def word_less_nat_alt)
qed

lemma shifted_divider_gone: "30 \<le> n \<Longrightarrow> push_bit n IWDG_PRESCALER_MIN = 0"
proof -
  assume "30 \<le> n"
  moreover have "push_bit n IWDG_PRESCALER_MIN = push_bit (n + 2) 1"
    by (simp add: IWDG_PRESCALER_MIN_def push_bit_eq_mult power_add)
  ultimately show ?thesis
    by (simp only:) (rule bit_word_eqI, simp only: bit_push_bit_iff bit_0_eq, simp)
qed

definition prescaler_measure :: "u32 \<Rightarrow> u32 \<Rightarrow> nat" where
  "prescaler_measure divider shift =
     (if divider = 0 then 0 else if unat shift < 7 then 8 - unat shift else 9)"

lemma prescaler_measure_decreases:
  assumes "IWDG_RELOAD_MAX < ticks div divider" "\<not> IWDG_PRESCALER_MAX < push_bit (unat (shift + 1)) IWDG_PRESCALER_MIN"
  shows "prescaler_measure (push_bit (unat (shift + 1)) IWDG_PRESCALER_MIN) (shift + 1) < prescaler_measure divider shift"
proof -
  have nz: "divider \<noteq> 0"
    using assms(1) by auto
  consider "unat (shift + 1) < 7" | "30 \<le> unat (shift + 1)"
    using shifted_divider_large assms(2) by (meson not_less)
  then show ?thesis
  proof cases
    case 1
    show ?thesis
    proof (cases "unat shift < 7")
      case True
      then have "unat (shift + 1) = unat shift + 1"
        by (simp add: unat_plus_if')
      with 1 nz show ?thesis
        by (auto simp: prescaler_measure_def)
    next
      case False
      with 1 nz show ?thesis
        by (auto simp: prescaler_measure_def)
    qed
  next
    case 2
    then have "push_bit (unat (shift + 1)) IWDG_PRESCALER_MIN = 0"
      by (rule shifted_divider_gone)
    with nz show ?thesis
      by (simp only: prescaler_measure_def) simp
  qed
qed

termination iwdg_prescaler_loop
  by (relation "measure (\<lambda>(ticks, divider, shift). prescaler_measure divider shift)")
    (auto intro: prescaler_measure_decreases)

declare iwdg_prescaler_loop.simps [simp del]

text \<open>The return code with \<open>*prescaler\<close> and \<open>*reload\<close>, which are left at 0 on an error.\<close>

definition stm32_iwdg_compute :: "app_config \<Rightarrow> u32 \<Rightarrow> rc \<times> u32 \<times> u32" where
  "stm32_iwdg_compute cfg timeout_ms =
     (let timeout_us = ucast timeout_ms * (1000 :: u64);
          ticks = (ucast (timeout_us * ucast (LSI_VALUE cfg) div 1000000) :: u32)
      in case iwdg_prescaler_loop ticks IWDG_PRESCALER_MIN 0 of
           None \<Rightarrow> (- EINVAL, 0, 0)
         | Some (divider, shift) \<Rightarrow>
             let value = ticks div divider
             in if value = 0 then (- EINVAL, 0, 0)
                else let value = value - 1;
                         value = (if IWDG_RELOAD_MAX < value then IWDG_RELOAD_MAX else value)
                     in (0, shift, value))"

text \<open>The wait for the peripheral: 0 when it is ready, \<open>-EAGAIN\<close> when it took too long.\<close>

partial_function (option) iwdg_wait :: "'h zephyr \<Rightarrow> app_config \<Rightarrow> u32 \<Rightarrow> 'h \<Rightarrow> (rc \<times> 'h) option" where
  "iwdg_wait z cfg start h =
     (case LL_IWDG_IsReady z h of
        (ready, h) \<Rightarrow>
          if ready = 0 then
            (case k_uptime_get_32 z h of
               (now, h) \<Rightarrow> if IWDG_SR_UPDATE_TIMEOUT_MS cfg < now - start then Some (- EAGAIN, h)
                           else iwdg_wait z cfg start h)
          else Some (0, h))"

definition stm32_iwdg_retune_hw :: "'h zephyr \<Rightarrow> app_config \<Rightarrow> u32 \<Rightarrow> 'h \<Rightarrow> (rc \<times> 'h) option" where
  "stm32_iwdg_retune_hw z cfg timeout_ms h =
     (let (rc, prescaler, reload) = stm32_iwdg_compute cfg timeout_ms
      in if rc \<noteq> 0 then Some (rc, h)
         else
           let h = LL_IWDG_EnableWriteAccess z h;
               h = LL_IWDG_SetPrescaler z prescaler h;
               h = LL_IWDG_SetReloadCounter z reload h;
               (start, h) = k_uptime_get_32 z h
           in case iwdg_wait z cfg start h of
                None \<Rightarrow> None
              | Some (rc, h) \<Rightarrow> Some (if rc \<noteq> 0 then (rc, h) else (0, LL_IWDG_ReloadCounter z h)))"

definition watchdog_ctrl_feed :: "'h zephyr \<Rightarrow> ('h, 'z) watchdog_scheme \<Rightarrow> rc \<times> ('h, 'z) watchdog_scheme" where
  "watchdog_ctrl_feed z s =
     (if wdt_channel_id s < 0 then (- EAGAIN, s)
      else if \<not> feed_enabled s then (- EBUSY, s)
      else let (rc, h) = wdt_feed z (wdt_channel_id s) (hw s) in (rc, s\<lparr>hw := h\<rparr>))"

definition watchdog_ctrl_init ::
    "'h zephyr \<Rightarrow> u32 \<Rightarrow> ('h, 'z) watchdog_scheme \<Rightarrow> rc \<times> ('h, 'z) watchdog_scheme" where
  "watchdog_ctrl_init z timeout_ms s =
     (if \<not> device_is_ready z Wdt_Dev (hw s) then (- ENODEV, s)
      else let (ret, s) =
             (if wdt_channel_id s < 0
              then let (ret, h) = wdt_install_timeout z timeout_ms (hw s);
                       s = s\<lparr>hw := h\<rparr>
                   in if ret < 0 then (ret, s) else (0, s\<lparr>wdt_channel_id := ret\<rparr>)
              else (0, s))
      in if ret < 0 then (ret, s)
         else let (ret, h) = wdt_setup z (hw s);
                  s = s\<lparr>hw := h\<rparr>
              in if ret \<noteq> 0 then (ret, s)
                 else watchdog_ctrl_feed z (s\<lparr>current_timeout_ms := timeout_ms\<rparr>))"

definition watchdog_ctrl_set_enabled :: "'h zephyr \<Rightarrow> bool \<Rightarrow> ('h, 'z) watchdog_scheme \<Rightarrow> ('h, 'z) watchdog_scheme" where
  "watchdog_ctrl_set_enabled z enable s =
     (let s = s\<lparr>feed_enabled := enable\<rparr>
      in if enable then snd (watchdog_ctrl_feed z s) else s)"

definition watchdog_ctrl_is_enabled :: "('h, 'z) watchdog_scheme \<Rightarrow> bool" where
  "watchdog_ctrl_is_enabled s = feed_enabled s"

definition watchdog_ctrl_retune ::
    "'h zephyr \<Rightarrow> app_config \<Rightarrow> u32 \<Rightarrow> ('h, 'z) watchdog_scheme \<Rightarrow> (rc \<times> ('h, 'z) watchdog_scheme) option" where
  "watchdog_ctrl_retune z cfg timeout_ms s =
     (if wdt_channel_id s < 0 then Some (- EAGAIN, s)
      else if timeout_ms = 0 then Some (- EINVAL, s)
      else if timeout_ms = current_timeout_ms s then Some (0, s)
      else if DT_ST_STM32_IWDG cfg then
        (case stm32_iwdg_retune_hw z cfg timeout_ms (hw s) of
           None \<Rightarrow> None
         | Some (rc, h) \<Rightarrow>
             let s = s\<lparr>hw := h\<rparr>
             in Some (if rc = 0 then (rc, s\<lparr>current_timeout_ms := timeout_ms\<rparr>) else (rc, s)))
      else Some (- ENOTSUP, s))"

definition watchdog_ctrl_get_timeout :: "('h, 'z) watchdog_scheme \<Rightarrow> u32" where
  "watchdog_ctrl_get_timeout s = current_timeout_ms s"

section \<open>Prescaler and reload value\<close>

lemma unat_shifted_divider: "n < 30 \<Longrightarrow> unat (push_bit n IWDG_PRESCALER_MIN) = 4 * 2 ^ n"
proof -
  assume n: "n < 30"
  have "4 * (2 :: nat) ^ n \<le> 4 * 2 ^ 29"
    using n by (intro mult_left_mono power_increasing) auto
  then have "4 * (2 :: nat) ^ n < 2 ^ 32"
    by simp
  moreover have "push_bit n IWDG_PRESCALER_MIN = word_of_nat (4 * 2 ^ n)"
    by (simp add: push_bit_eq_mult IWDG_PRESCALER_MIN_def)
  ultimately show ?thesis
    using of_nat_inverse [of "4 * 2 ^ n" "push_bit n IWDG_PRESCALER_MIN"] by simp
qed

lemma divider_too_small:
  "n < 30 \<Longrightarrow> IWDG_RELOAD_MAX < ticks div push_bit n IWDG_PRESCALER_MIN \<longleftrightarrow> 2 ^ (14 + n) \<le> unat ticks"
proof -
  assume n: "n < 30"
  have "IWDG_RELOAD_MAX < ticks div push_bit n IWDG_PRESCALER_MIN \<longleftrightarrow> 4096 \<le> unat ticks div (4 * 2 ^ n)"
    by (simp add: IWDG_RELOAD_MAX_def word_less_nat_alt unat_div unat_shifted_divider [OF n]) linarith
  also have "\<dots> \<longleftrightarrow> 4096 * (4 * 2 ^ n) \<le> unat ticks"
    by (simp add: less_eq_div_iff_mult_less_eq)
  finally show ?thesis
    by (simp add: power_add)
qed

text \<open>One iteration of the loop, started with shift \<open>n\<close>.\<close>

lemma prescaler_loop_stop:
  assumes "n < 30" "unat ticks < 2 ^ (14 + n)"
  shows "iwdg_prescaler_loop ticks (push_bit n IWDG_PRESCALER_MIN) s = Some (push_bit n IWDG_PRESCALER_MIN, s)"
proof -
  have "\<not> IWDG_RELOAD_MAX < ticks div push_bit n IWDG_PRESCALER_MIN"
    using assms by (simp only: divider_too_small not_le)
  then show ?thesis
    by (subst iwdg_prescaler_loop.simps) (simp only: if_False)
qed

lemma prescaler_loop_next:
  assumes n: "n \<le> 6" "2 ^ (14 + n) \<le> unat ticks"
  shows "iwdg_prescaler_loop ticks (push_bit n IWDG_PRESCALER_MIN) (word_of_nat n) =
     (if n < 6 then iwdg_prescaler_loop ticks (push_bit (Suc n) IWDG_PRESCALER_MIN) (word_of_nat (Suc n)) else None)"
proof -
  have shift: "word_of_nat n + 1 = (word_of_nat (Suc n) :: u32)" "unat (word_of_nat (Suc n) :: u32) = Suc n"
    using assms(1) by (simp_all add: unsigned_of_nat take_bit_nat_eq_self del: of_nat_Suc) simp
  have large: "IWDG_RELOAD_MAX < ticks div push_bit n IWDG_PRESCALER_MIN"
    using n by (simp only: divider_too_small)
  have next_ok: "IWDG_PRESCALER_MAX < push_bit (Suc n) IWDG_PRESCALER_MIN \<longleftrightarrow> \<not> n < 6"
  proof (cases "n < 6")
    case True
    then have "4 * 2 ^ Suc n \<le> 4 * (2 :: nat) ^ 6"
      by (intro mult_left_mono power_increasing) auto
    then have "unat (push_bit (Suc n) IWDG_PRESCALER_MIN) \<le> 256"
      using True by (subst unat_shifted_divider) simp_all
    with True show ?thesis
      by (simp add: word_less_nat_alt IWDG_PRESCALER_MAX_def not_less)
  next
    case False
    then show ?thesis
      using n(1) shifted_divider_large [of "Suc n"] by simp
  qed
  show ?thesis
    by (subst iwdg_prescaler_loop.simps, cases "n < 6") (simp_all only: large if_True if_False Let_def shift next_ok simp_thms)
qed

lemma prescaler_loop_spec:
  assumes "n \<le> 6"
  shows "iwdg_prescaler_loop ticks (push_bit n IWDG_PRESCALER_MIN) (word_of_nat n) = None \<and> 2 ^ 20 \<le> unat ticks \<or>
     (\<exists>k. n \<le> k \<and> k \<le> 6 \<and> iwdg_prescaler_loop ticks (push_bit n IWDG_PRESCALER_MIN) (word_of_nat n) =
        Some (push_bit k IWDG_PRESCALER_MIN, word_of_nat k) \<and>
        unat ticks < 2 ^ (14 + k) \<and> (k = n \<or> 2 ^ (13 + k) \<le> unat ticks))"
  using assms
proof (induction "6 - n" arbitrary: n rule: less_induct)
  case less
  consider "unat ticks < 2 ^ (14 + n)" | "2 ^ (14 + n) \<le> unat ticks" "n = 6" | "2 ^ (14 + n) \<le> unat ticks" "n < 6"
    using less.prems by linarith
  then show ?case
  proof cases
    case 1
    then show ?thesis
      using less.prems prescaler_loop_stop [of n ticks] by (intro disjI2 exI [of _ n]) (simp only: simp_thms)
  next
    case 2
    then show ?thesis
      by (intro disjI1 conjI) (simp only: prescaler_loop_next less_irrefl if_False order.refl, simp)
  next
    case 3
    then have step: "iwdg_prescaler_loop ticks (push_bit n IWDG_PRESCALER_MIN) (word_of_nat n) =
        iwdg_prescaler_loop ticks (push_bit (Suc n) IWDG_PRESCALER_MIN) (word_of_nat (Suc n))"
      using less.prems by (simp only: prescaler_loop_next if_True)
    have "13 + Suc n = 14 + n"
      by simp
    then have "k = Suc n \<or> 2 ^ (13 + k) \<le> unat ticks \<Longrightarrow> k = n \<or> 2 ^ (13 + k) \<le> unat ticks" for k
      using 3(1) by metis
    then show ?thesis
      using less.hyps [of "Suc n"] 3(2) unfolding step by (metis Suc_leD diff_less_mono2 Suc_leI lessI)
  qed
qed

text \<open>The number of ticks of the low-speed oscillator in a timeout, in the width the code computes it.\<close>

definition iwdg_ticks :: "app_config \<Rightarrow> u32 \<Rightarrow> nat" where
  "iwdg_ticks cfg timeout_ms = unat timeout_ms * unat (LSI_VALUE cfg) div 1000 mod 2 ^ 32"

lemma compute_ticks:
  assumes "unat (LSI_VALUE cfg) < 2 ^ 22"
  shows "unat (ucast (ucast t * (1000 :: u64) * ucast (LSI_VALUE cfg) div 1000000) :: u32) = iwdg_ticks cfg t"
proof -
  let ?us = "ucast t * (1000 :: u64)"
  have t: "unat t < 2 ^ 32"
    using u32_less [of t] by simp
  have lsi64: "take_bit 64 (unat (LSI_VALUE cfg)) = unat (LSI_VALUE cfg)"
    using assms by (intro take_bit_nat_eq_self) simp
  have us: "unat ?us = unat t * 1000"
    using t by (simp add: unat_word_ariths unsigned_ucast_eq take_bit_nat_eq_self)
  have "unat t * 1000 * unat (LSI_VALUE cfg) \<le> (2 ^ 32 * 1000) * 2 ^ 22"
    using t assms by (intro mult_mono) auto
  then have prod: "unat (?us * ucast (LSI_VALUE cfg)) = unat t * 1000 * unat (LSI_VALUE cfg)"
    by (subst unat_word_ariths(2)) (simp only: us unsigned_ucast_eq, simp add: take_bit_nat_eq_self lsi64)
  have "unat t * 1000 * unat (LSI_VALUE cfg) div 1000000 = unat t * unat (LSI_VALUE cfg) div 1000"
    using div_mult_mult1 [of 1000 "unat t * unat (LSI_VALUE cfg)" 1000] by (simp add: ac_simps)
  then show ?thesis
    by (simp only: unsigned_ucast_eq unat_div prod iwdg_ticks_def) (simp add: take_bit_eq_mod)
qed

lemma compute_spec:
  assumes lsi: "unat (LSI_VALUE cfg) < 2 ^ 22"
  shows "(case stm32_iwdg_compute cfg timeout_ms of (rc, prescaler, reload) \<Rightarrow>
     if 4 \<le> iwdg_ticks cfg timeout_ms \<and> iwdg_ticks cfg timeout_ms < 2 ^ 20
     then rc = 0 \<and> unat prescaler \<le> 6 \<and> reload < IWDG_RELOAD_MAX \<and>
       (unat reload + 1) * (4 * 2 ^ unat prescaler) \<le> iwdg_ticks cfg timeout_ms \<and>
       iwdg_ticks cfg timeout_ms < (unat reload + 2) * (4 * 2 ^ unat prescaler) \<and>
       (unat prescaler = 0 \<or> 2 ^ (13 + unat prescaler) \<le> iwdg_ticks cfg timeout_ms)
     else rc = - EINVAL \<and> prescaler = 0 \<and> reload = 0)"
proof -
  define T where "T = (ucast (ucast timeout_ms * (1000 :: u64) * ucast (LSI_VALUE cfg) div 1000000) :: u32)"
  have T: "unat T = iwdg_ticks cfg timeout_ms"
    unfolding T_def by (rule compute_ticks [OF lsi])
  have start: "push_bit 0 IWDG_PRESCALER_MIN = IWDG_PRESCALER_MIN" "word_of_nat 0 = (0 :: u32)"
    by simp_all
  consider "iwdg_prescaler_loop T IWDG_PRESCALER_MIN 0 = None" "2 ^ 20 \<le> unat T"
    | k where "k \<le> 6" "iwdg_prescaler_loop T IWDG_PRESCALER_MIN 0 = Some (push_bit k IWDG_PRESCALER_MIN, word_of_nat k)"
      "unat T < 2 ^ (14 + k)" "k = 0 \<or> 2 ^ (13 + k) \<le> unat T"
    using prescaler_loop_spec [OF zero_le, of T] unfolding start by metis
  note cases = this
  have compute: "stm32_iwdg_compute cfg timeout_ms =
     (case iwdg_prescaler_loop T IWDG_PRESCALER_MIN 0 of
        None \<Rightarrow> (- EINVAL, 0, 0)
      | Some (divider, shift) \<Rightarrow> if T div divider = 0 then (- EINVAL, 0, 0)
          else (0, shift, if IWDG_RELOAD_MAX < T div divider - 1 then IWDG_RELOAD_MAX else T div divider - 1))"
    by (simp only: stm32_iwdg_compute_def Let_def T_def)
  show ?thesis
  proof (cases rule: cases)
    case 1
    then show ?thesis
      by (simp add: compute flip: T)
  next
    case (2 k)
    let ?d = "push_bit k IWDG_PRESCALER_MIN"
    let ?v = "T div ?d"
    have d: "unat ?d = 4 * 2 ^ k"
      using 2(1) by (intro unat_shifted_divider) simp
    have v: "unat ?v = unat T div (4 * 2 ^ k)"
      by (simp add: unat_div d)
    have k: "unat (word_of_nat k :: u32) = k"
      using 2(1) by (simp add: unsigned_of_nat take_bit_nat_eq_self)
    have "(2 :: nat) ^ (14 + k) \<le> 2 ^ 20"
      using 2(1) by (intro power_increasing) auto
    with 2(3) have small: "unat T < 2 ^ 20"
      by linarith
    have less: "unat ?v < 4096"
      unfolding v using 2(3) by (simp add: div_less_iff_less_mult power_add)
    show ?thesis
    proof (cases "4 \<le> unat T")
      case False
      moreover have "(1 :: nat) \<le> 2 ^ k"
        by simp
      ultimately have "unat T < 4 * 2 ^ k"
        by linarith
      then have "?v = 0"
        by (metis v div_less unat_eq_zero)
      with False 2(2) show ?thesis
        by (simp add: compute flip: T)
    next
      case True
      have "4 * 2 ^ k \<le> unat T"
        using 2(4) True by (auto simp: power_add)
      then have "1 \<le> unat ?v"
        by (simp add: v less_eq_div_iff_mult_less_eq)
      then obtain m where m: "unat ?v = Suc m" "m < 4095"
        using less by (cases "unat ?v") auto
      then have nz: "?v \<noteq> 0"
        by auto
      then have pred: "unat (?v - 1) = m"
        using unat_minus_one [of ?v] m by simp
      have "stm32_iwdg_compute cfg timeout_ms = (0, word_of_nat k, ?v - 1)"
        using 2(2) nz pred m(2) by (simp add: compute word_less_nat_alt IWDG_RELOAD_MAX_def)
      moreover have "Suc m * (4 * 2 ^ k) \<le> unat T" "unat T < (Suc m + 1) * (4 * 2 ^ k)"
        using dividend_less_div_times [of "4 * 2 ^ k" "unat T"] unfolding m(1) [symmetric] v by simp_all
      ultimately show ?thesis
        using 2(1,4) True small pred m(2) k
        by (simp add: word_less_nat_alt IWDG_RELOAD_MAX_def flip: T)
    qed
  qed
qed

section \<open>The wait for the peripheral\<close>

text \<open>
  What the wait needs of the clock: a reading is the uptime \<open>up\<close> of the hardware, which does not run
  backwards and never jumps by 6 days between two calls, and polling goes on until the clock moves.
\<close>

definition iwdg_poll :: "'h zephyr \<Rightarrow> 'h \<Rightarrow> 'h" where
  "iwdg_poll z h = snd (k_uptime_get z (snd (LL_IWDG_IsReady z h)))"

definition clock_runs :: "'h zephyr \<Rightarrow> ('h \<Rightarrow> int) \<Rightarrow> bool" where
  "clock_runs z up \<longleftrightarrow>
     (\<forall>h. fst (k_uptime_get z h) = up h) \<and>
     (\<forall>h. up h \<le> up (snd (k_uptime_get z h)) \<and> up (snd (k_uptime_get z h)) \<le> up h + 2 ^ 29) \<and>
     (\<forall>h. up h \<le> up (snd (LL_IWDG_IsReady z h)) \<and> up (snd (LL_IWDG_IsReady z h)) \<le> up h + 2 ^ 29) \<and>
     (\<forall>h. \<exists>n. up h < up ((iwdg_poll z ^^ n) h))"

lemma clock_reading:
  assumes "clock_runs z up"
  shows "fst (k_uptime_get z h) = up h" "up h \<le> up (snd (k_uptime_get z h))"
    "up (snd (k_uptime_get z h)) \<le> up h + 2 ^ 29"
  using assms by (simp_all add: clock_runs_def)

lemma clock_poll:
  assumes "clock_runs z up"
  shows "up h \<le> up (snd (LL_IWDG_IsReady z h))" "up (snd (LL_IWDG_IsReady z h)) \<le> up (iwdg_poll z h)"
    "up (iwdg_poll z h) \<le> up h + 2 ^ 30"
proof -
  let ?g = "snd (LL_IWDG_IsReady z h)"
  have "up h \<le> up ?g" "up ?g \<le> up h + 2 ^ 29"
    using assms by (simp_all add: clock_runs_def)
  then show "up h \<le> up ?g" "up ?g \<le> up (iwdg_poll z h)" "up (iwdg_poll z h) \<le> up h + 2 ^ 30"
    using clock_reading [OF assms, of ?g] by (simp_all add: iwdg_poll_def)
qed

lemma elapsed_ms:
  fixes now start :: int
  assumes "start \<le> now" "now < start + 2 ^ 32"
  shows "uint (word_of_int now - word_of_int start :: u32) = now - start"
proof -
  have "word_of_int now - word_of_int start = (word_of_int (now - start) :: u32)"
    by simp
  then show ?thesis
    using assms by (simp only: uint_word_of_int) simp
qed

lemma iwdg_wait_returns:
  assumes z: "clock_runs z up" and lim: "uint (IWDG_SR_UPDATE_TIMEOUT_MS cfg) < 2 ^ 30"
  shows "t0 \<le> up h \<Longrightarrow> up h \<le> t0 + uint (IWDG_SR_UPDATE_TIMEOUT_MS cfg) + 2 ^ 30 \<Longrightarrow>
     \<exists>r h'. iwdg_wait z cfg (word_of_int t0) h = Some (r, h')"
proof (induction "nat (t0 + uint (IWDG_SR_UPDATE_TIMEOUT_MS cfg) + 1 - up h)" arbitrary: h rule: less_induct)
  case less
  let ?L = "uint (IWDG_SR_UPDATE_TIMEOUT_MS cfg)"
  have step: "\<exists>r h'. iwdg_wait z cfg (word_of_int t0) g = Some (r, h')"
    if g: "t0 \<le> up g" "up g \<le> t0 + ?L + 2 ^ 30"
      and rest: "up g \<le> t0 + ?L \<Longrightarrow> \<exists>r h'. iwdg_wait z cfg (word_of_int t0) (iwdg_poll z g) = Some (r, h')" for g
  proof -
    obtain ready g1 where r: "LL_IWDG_IsReady z g = (ready, g1)"
      by fastforce
    have up1: "up g \<le> up g1" "up g1 \<le> up (iwdg_poll z g)" "up (iwdg_poll z g) \<le> up g + 2 ^ 30"
      "fst (k_uptime_get z g1) = up g1" "iwdg_poll z g = snd (k_uptime_get z g1)"
      using clock_poll [OF z, of g] clock_reading [OF z, of g1] by (simp_all add: r iwdg_poll_def)
    have elapsed: "uint (word_of_int (up g1) - word_of_int t0 :: u32) = up g1 - t0"
      using up1 g lim by (intro elapsed_ms) auto
    have "iwdg_wait z cfg (word_of_int t0) g =
        (if ready = 0
         then if IWDG_SR_UPDATE_TIMEOUT_MS cfg < word_of_int (up g1) - word_of_int t0 then Some (- EAGAIN, iwdg_poll z g)
              else iwdg_wait z cfg (word_of_int t0) (iwdg_poll z g)
         else Some (0, g1))"
      using up1(4,5) by (subst iwdg_wait.simps) (simp add: r k_uptime_get_32_def case_prod_beta)
    then show ?thesis
      using rest up1(1) elapsed by (auto simp: word_less_def)
  qed
  have "\<exists>r h'. iwdg_wait z cfg (word_of_int t0) g = Some (r, h')"
    if "up g = up h" "up h < up ((iwdg_poll z ^^ n) g)" for n g
    using that
  proof (induction n arbitrary: g)
    case 0
    then show ?case
      by simp
  next
    case (Suc n)
    show ?case
    proof (rule step)
      show "t0 \<le> up g" "up g \<le> t0 + ?L + 2 ^ 30"
        using less.prems Suc.prems by simp_all
    next
      assume early: "up g \<le> t0 + ?L"
      have mono: "up g \<le> up (iwdg_poll z g)" "up (iwdg_poll z g) \<le> up g + 2 ^ 30"
        using clock_poll [OF z, of g] by simp_all
      show "\<exists>r h'. iwdg_wait z cfg (word_of_int t0) (iwdg_poll z g) = Some (r, h')"
      proof (cases "up (iwdg_poll z g) = up g")
        case True
        then show ?thesis
          using Suc by (intro Suc.IH) (simp_all add: funpow_swap1)
      next
        case False
        with mono early less.prems Suc.prems(1) show ?thesis
          by (intro less.hyps) auto
      qed
    qed
  qed
  moreover obtain n where "up h < up ((iwdg_poll z ^^ n) h)"
    using z unfolding clock_runs_def by blast
  ultimately show ?case
    by blast
qed

lemma iwdg_update_limit: "uint (IWDG_SR_UPDATE_TIMEOUT_MS cfg) < 2 ^ 30"
proof -
  have "IWDG_SR_UPDATE_TIMEOUT_MS cfg = 1536000 div LSI_VALUE cfg"
    by (simp add: IWDG_SR_UPDATE_TIMEOUT_MS_def IWDG_PRESCALER_MAX_def)
  moreover have "unat (1536000 div LSI_VALUE cfg :: u32) \<le> 1536000"
    by (simp add: unat_div)
  ultimately have "int (unat (IWDG_SR_UPDATE_TIMEOUT_MS cfg)) \<le> int 1536000"
    by (simp only: of_nat_le_iff)
  then show ?thesis
    unfolding uint_nat by (rule order.strict_trans1) simp
qed

lemma retune_hw_returns:
  assumes z: "clock_runs z up"
  shows "\<exists>rc h'. stm32_iwdg_retune_hw z cfg t h = Some (rc, h')"
proof -
  obtain rc p r where c: "stm32_iwdg_compute cfg t = (rc, p, r)"
    by (metis prod.exhaust)
  let ?h = "LL_IWDG_SetReloadCounter z r (LL_IWDG_SetPrescaler z p (LL_IWDG_EnableWriteAccess z h))"
  have nonneg: "(0 :: int) \<le> uint (IWDG_SR_UPDATE_TIMEOUT_MS cfg)" "(2 :: int) ^ 29 \<le> 2 ^ 30"
    by simp_all
  have "\<exists>r h'. iwdg_wait z cfg (word_of_int (up ?h)) (snd (k_uptime_get z ?h)) = Some (r, h')"
    using clock_reading(2,3) [OF z, of ?h] nonneg
    by (intro iwdg_wait_returns [OF z iwdg_update_limit]) linarith+
  then show ?thesis
    using clock_reading(1) [OF z, of ?h]
    by (auto simp: stm32_iwdg_retune_hw_def c k_uptime_get_32_def case_prod_beta Let_def)
qed

lemma retune_total:
  assumes "clock_runs z up"
  shows "\<exists>rc s'. watchdog_ctrl_retune z cfg timeout_ms s = Some (rc, s')"
  using retune_hw_returns [OF assms, of cfg timeout_ms "hw s"] by (auto simp: watchdog_ctrl_retune_def Let_def)

section \<open>The contract of the driver\<close>

text \<open>
  What the supervisor relies on: feeding a watchdog that is not installed or is switched off fails
  without side effects, feeding never changes the settings, and a retune call that returns leaves
  the requested timeout in force exactly when it reports success.
\<close>

locale watchdog_port =
  fixes installed :: "'s \<Rightarrow> bool"
    and enabled :: "'s \<Rightarrow> bool"
    and timeout :: "'s \<Rightarrow> u32"
    and feed :: "'s \<Rightarrow> rc \<times> 's"
    and retune :: "u32 \<Rightarrow> 's \<Rightarrow> (rc \<times> 's) option"
  assumes feed_refused: "\<not> installed s \<or> \<not> enabled s \<Longrightarrow> fst (feed s) \<noteq> 0 \<and> snd (feed s) = s"
    and feed_keeps: "installed (snd (feed s)) = installed s" "enabled (snd (feed s)) = enabled s"
      "timeout (snd (feed s)) = timeout s"
    and retune_keeps: "retune t s = Some (rc, s') \<Longrightarrow> installed s' = installed s \<and> enabled s' = enabled s \<and>
      timeout s' = (if rc = 0 then t else timeout s)"
    and retune_idle: "installed s \<Longrightarrow> timeout s \<noteq> 0 \<Longrightarrow> retune (timeout s) s = Some (0, s)"
begin

text \<open>A target that was reached is reached: the same request again changes nothing.\<close>

lemma retune_settled:
  assumes "retune t s = Some (0, s')" "installed s" "t \<noteq> 0"
  shows "retune t s' = Some (0, s')"
  using retune_keeps [OF assms(1)] retune_idle [of s'] assms(2,3) by simp

lemma retune_feed_keeps:
  assumes "retune t s = Some (rc, s')"
  shows "enabled (snd (feed s')) = enabled s" "timeout (snd (feed s')) = (if rc = 0 then t else timeout s)"
  using retune_keeps [OF assms] by (simp_all add: feed_keeps)

end

lemma watchdog_retune_state:
  assumes "watchdog_ctrl_retune z cfg t s = Some (rc, s')"
  obtains h where "s' = s\<lparr>hw := h, current_timeout_ms := if rc = 0 then t else current_timeout_ms s\<rparr>"
proof -
  have "\<exists>h. s' = s\<lparr>hw := h, current_timeout_ms := if rc = 0 then t else current_timeout_ms s\<rparr>"
    using assms
    by (cases "stm32_iwdg_retune_hw z cfg t (hw s)")
      (auto simp: watchdog_ctrl_retune_def Let_def split: if_splits intro: exI [of _ "hw s"])
  then show ?thesis
    using that by blast
qed

lemma watchdog_feed_state: "\<exists>h. snd (watchdog_ctrl_feed z s) = s\<lparr>hw := h\<rparr>"
  by (auto simp: watchdog_ctrl_feed_def case_prod_beta intro: exI [of _ "hw s"])

lemma watchdog_feed_same [simp]:
  "wdt_channel_id (snd (watchdog_ctrl_feed z s)) = wdt_channel_id s"
  "feed_enabled (snd (watchdog_ctrl_feed z s)) = feed_enabled s"
  "current_timeout_ms (snd (watchdog_ctrl_feed z s)) = current_timeout_ms s"
  "trace (snd (watchdog_ctrl_feed z s)) = trace s"
  "watchdog.more (snd (watchdog_ctrl_feed z s)) = watchdog.more s"
  by (simp_all add: watchdog_ctrl_feed_def case_prod_beta)

interpretation wd: watchdog_port "\<lambda>s. 0 \<le> wdt_channel_id s" watchdog_ctrl_is_enabled watchdog_ctrl_get_timeout
    "watchdog_ctrl_feed z" "watchdog_ctrl_retune z cfg" for z :: "'h zephyr" and cfg
proof
  fix s s' :: "('h, 'z) watchdog_scheme" and t rc
  show "\<not> 0 \<le> wdt_channel_id s \<or> \<not> watchdog_ctrl_is_enabled s \<Longrightarrow>
      fst (watchdog_ctrl_feed z s) \<noteq> 0 \<and> snd (watchdog_ctrl_feed z s) = s"
    by (auto simp: watchdog_ctrl_feed_def watchdog_ctrl_is_enabled_def)
  show "(0 \<le> wdt_channel_id (snd (watchdog_ctrl_feed z s))) = (0 \<le> wdt_channel_id s)"
    "watchdog_ctrl_is_enabled (snd (watchdog_ctrl_feed z s)) = watchdog_ctrl_is_enabled s"
    "watchdog_ctrl_get_timeout (snd (watchdog_ctrl_feed z s)) = watchdog_ctrl_get_timeout s"
    by (simp_all add: watchdog_ctrl_is_enabled_def watchdog_ctrl_get_timeout_def)
  show "watchdog_ctrl_retune z cfg t s = Some (rc, s') \<Longrightarrow> (0 \<le> wdt_channel_id s') = (0 \<le> wdt_channel_id s) \<and>
      watchdog_ctrl_is_enabled s' = watchdog_ctrl_is_enabled s \<and>
      watchdog_ctrl_get_timeout s' = (if rc = 0 then t else watchdog_ctrl_get_timeout s)"
    by (erule watchdog_retune_state) (simp add: watchdog_ctrl_is_enabled_def watchdog_ctrl_get_timeout_def)
  show "0 \<le> wdt_channel_id s \<Longrightarrow> watchdog_ctrl_get_timeout s \<noteq> 0 \<Longrightarrow>
      watchdog_ctrl_retune z cfg (watchdog_ctrl_get_timeout s) s = Some (0, s)"
    by (simp add: watchdog_ctrl_retune_def watchdog_ctrl_get_timeout_def)
qed

section \<open>Properties\<close>

text \<open>
  The outcome the register computation should have for \<open>T\<close> oscillator ticks: for \<open>4 \<le> T < 2^20\<close> success,
  with a period of \<open>(reload + 1) * 4 * 2^prescaler\<close> ticks that never exceeds \<open>T\<close>, falls short of it by
  less than one prescaled tick, and uses the finest prescaler for which the reload value fits;
  otherwise a refusal.
\<close>

definition iwdg_registers_for :: "nat \<Rightarrow> rc \<times> u32 \<times> u32 \<Rightarrow> bool" where
  "iwdg_registers_for T out \<longleftrightarrow> (case out of (rc, prescaler, reload) \<Rightarrow>
     if 4 \<le> T \<and> T < 2 ^ 20
     then rc = 0 \<and> unat prescaler \<le> 6 \<and> reload < IWDG_RELOAD_MAX \<and>
       (unat reload + 1) * (4 * 2 ^ unat prescaler) \<le> T \<and> T < (unat reload + 2) * (4 * 2 ^ unat prescaler) \<and>
       (unat prescaler = 0 \<or> 2 ^ (13 + unat prescaler) \<le> T)
     else rc = - EINVAL \<and> prescaler = 0 \<and> reload = 0)"

lemma ticks_fit:
  assumes "unat (LSI_VALUE cfg) < 2 ^ 22" "unat (timeout_ms :: u32) \<le> 1024000"
  shows "unat timeout_ms * unat (LSI_VALUE cfg) div 1000 < 2 ^ 32"
proof -
  have "unat timeout_ms * unat (LSI_VALUE cfg) \<le> 1024000 * (2 ^ 22 - 1)"
    using assms by (intro mult_mono) auto
  then have "unat timeout_ms * unat (LSI_VALUE cfg) div 1000 \<le> 1024000 * (2 ^ 22 - 1) div 1000"
    by (rule div_le_mono)
  then show ?thesis
    by (rule order.strict_trans1) simp
qed

text \<open>
  Claim C10. The register values for a timeout of \<open>T\<close> oscillator ticks, \<open>T\<close> being the exact number,
  rounded down, and the oscillator slower than \<open>2^22\<close> Hz. As long as \<open>T\<close> fits 32 bits, which it does for all timeouts up to 1024 s, the outcome is
  the one \<open>iwdg_registers_for\<close> asks for: at 37 kHz, periods for 1 ms up to 28339 ms, and \<open>-EINVAL\<close>
  for the others. Beyond, the code truncates the number of ticks to 32 bits, and the outcome is that of
  the truncated number: a timeout of 116080200 ms is accepted and programmed as 104 ticks.
\<close>

theorem iwdg_compute_correct:
  assumes "unat (LSI_VALUE cfg) < 2 ^ 22" "T = unat timeout_ms * unat (LSI_VALUE cfg) div 1000"
  shows "(T < 2 ^ 32 \<longrightarrow> iwdg_registers_for T (stm32_iwdg_compute cfg timeout_ms)) \<and>
     (unat timeout_ms \<le> 1024000 \<longrightarrow> T < 2 ^ 32) \<and>
     (2 ^ 32 \<le> T \<longrightarrow> iwdg_registers_for (T mod 2 ^ 32) (stm32_iwdg_compute cfg timeout_ms))"
proof -
  have "iwdg_registers_for (T mod 2 ^ 32) (stm32_iwdg_compute cfg timeout_ms)"
    using compute_spec [OF assms(1), of timeout_ms] unfolding iwdg_registers_for_def assms(2) iwdg_ticks_def .
  then show ?thesis
    using ticks_fit [OF assms(1), of timeout_ms] assms(2) by (auto simp: mod_less)
qed

theorem iwdg_compute_correct_witness:
  "fst (stm32_iwdg_compute kconfig_defaults 1) = 0 \<and> fst (stm32_iwdg_compute kconfig_defaults 28339) = 0 \<and>
   fst (stm32_iwdg_compute kconfig_defaults 28340) = - EINVAL \<and> fst (stm32_iwdg_compute kconfig_defaults 116080200) = 0"
proof -
  have lsi: "LSI_VALUE kconfig_defaults = 37000"
    by (simp add: kconfig_defaults_def)
  show ?thesis
    using iwdg_compute_correct [of kconfig_defaults 37 1] iwdg_compute_correct [of kconfig_defaults 1048543 28339]
      iwdg_compute_correct [of kconfig_defaults 1048580 28340] iwdg_compute_correct [of kconfig_defaults 4294967400 116080200]
    by (simp add: lsi iwdg_registers_for_def case_prod_beta)
qed

text \<open>
  Claim C16. Retuning always returns, whatever the peripheral does, as long as the kernel clock keeps
  running while it is polled: the wait without a bound of its own gives up with \<open>-EAGAIN\<close>. The new
  timeout is recorded exactly when the call reports success.
\<close>

theorem watchdog_retune_returns:
  assumes "clock_runs z up"
  shows "\<exists>rc s'. watchdog_ctrl_retune z cfg timeout_ms s = Some (rc, s') \<and>
     watchdog_ctrl_get_timeout s' = (if rc = 0 then timeout_ms else watchdog_ctrl_get_timeout s)"
  using retune_total [OF assms] wd.retune_keeps by blast

lemma sim_clock_runs: "clock_runs sim_board sim_clock"
proof -
  have "sim_clock h < sim_clock ((iwdg_poll sim_board ^^ 1) h)" for h
    by (simp add: iwdg_poll_def sim_board_def)
  then show ?thesis
    unfolding clock_runs_def by (intro conjI allI; (intro exI [of _ 1])?) (simp_all add: sim_board_def)
qed

definition sim_watchdog :: "(sim, unit) watchdog_scheme" where
  "sim_watchdog = persist.extend sim_started \<lparr>feed_enabled = True, wdt_channel_id = 0, current_timeout_ms = 8000\<rparr>"

theorem watchdog_retune_returns_witness:
  "\<exists>rc s'. watchdog_ctrl_retune sim_board kconfig_defaults 2000 sim_watchdog = Some (rc, s')"
  using watchdog_retune_returns [OF sim_clock_runs] by blast

end
