(* ===== verification/Recovery.thy ===== *)
theory Recovery
  imports Watchdog_Ctrl
begin

text \<open>
  \<open>src/recovery.c\<close>: reboot requests and the safe-mode deadline. The thread is one iteration of its
  loop, which either goes on or ends in \<open>sys_reboot\<close>, a call that does not return. The mutex makes the
  accesses to the deadline atomic; every operation here is one atomic step.
\<close>

section \<open>The code\<close>

datatype recovery_reason =
    RECOVERY_REASON_HEALTH_FAULT
  | RECOVERY_REASON_MANUAL_TRIGGER
  | RECOVERY_REASON_SAFE_MODE_TIMEOUT
  | RECOVERY_REASON_WATCHDOG_INIT_FAIL
  | RECOVERY_REASON_COUNT

fun reason_number :: "recovery_reason \<Rightarrow> nat" where
  "reason_number RECOVERY_REASON_HEALTH_FAULT = 0"
| "reason_number RECOVERY_REASON_MANUAL_TRIGGER = 1"
| "reason_number RECOVERY_REASON_SAFE_MODE_TIMEOUT = 2"
| "reason_number RECOVERY_REASON_WATCHDOG_INIT_FAIL = 3"
| "reason_number RECOVERY_REASON_COUNT = 4"

text \<open>The order of the enumeration, in which \<open>RECOVERY_REASON_COUNT\<close> is the bound of the valid reasons.\<close>

lemma reason_number_inject: "reason_number a = reason_number b \<longleftrightarrow> a = b"
  by (cases a; cases b) simp_all

instantiation recovery_reason :: linorder
begin

definition less_eq_recovery_reason :: "recovery_reason \<Rightarrow> recovery_reason \<Rightarrow> bool" where
  "less_eq_recovery_reason a b \<longleftrightarrow> reason_number a \<le> reason_number b"

definition less_recovery_reason :: "recovery_reason \<Rightarrow> recovery_reason \<Rightarrow> bool" where
  "less_recovery_reason a b \<longleftrightarrow> reason_number a < reason_number b"

instance
  by standard (auto simp: less_eq_recovery_reason_def less_recovery_reason_def reason_number_inject)

end

lemma valid_reason: "RECOVERY_REASON_COUNT \<le> reason \<longleftrightarrow> reason = RECOVERY_REASON_COUNT"
  by (cases reason) (simp_all add: less_eq_recovery_reason_def)

text \<open>
  \<open>recovery_test_events\<close> exists in test builds only and is written by nothing else there. An
  \<open>int64_t\<close> time in milliseconds is an integer; \<open>INT64_MIN\<close> is the inactive deadline.
\<close>

record 'h recovery = "'h watchdog" +
  safe_mode_deadline :: int
  safe_mode_delay_ms :: u32
  recovery_test_events :: u32

definition SAFE_MODE_DEADLINE_INACTIVE :: int where
  "SAFE_MODE_DEADLINE_INACTIVE = - (2 ^ 63)"

definition INT32_MAX :: int where
  "INT32_MAX = 2 ^ 31 - 1"

fun recovery_reason_to_str :: "recovery_reason \<Rightarrow> string" where
  "recovery_reason_to_str RECOVERY_REASON_HEALTH_FAULT = ''persistent health fault''"
| "recovery_reason_to_str RECOVERY_REASON_MANUAL_TRIGGER = ''manual recovery request''"
| "recovery_reason_to_str RECOVERY_REASON_SAFE_MODE_TIMEOUT = ''safe-mode timeout''"
| "recovery_reason_to_str RECOVERY_REASON_WATCHDOG_INIT_FAIL = ''watchdog init failure''"
| "recovery_reason_to_str RECOVERY_REASON_COUNT = ''unknown''"

definition reason_bit :: "recovery_reason \<Rightarrow> u32" where
  \<comment> \<open>\<open>BIT(reason)\<close>\<close>
  "reason_bit reason = push_bit (reason_number reason) 1"

definition recovery_request ::
    "'h zephyr \<Rightarrow> app_config \<Rightarrow> recovery_reason \<Rightarrow> ('h, 'z) recovery_scheme \<Rightarrow> ('h, 'z) recovery_scheme" where
  "recovery_request z cfg reason s =
     (if RECOVERY_REASON_COUNT \<le> reason then s
      else let s = emit (LOG_EVT L_WRN ''RECOVERY'' ''QUEUED''
                     [LNum (int (reason_number reason)), LStr (recovery_reason_to_str reason)]) s;
               s = s\<lparr>hw := k_event_post z (reason_bit reason) (hw s)\<rparr>
           in if ZTEST cfg then s\<lparr>recovery_test_events := recovery_test_events s OR reason_bit reason\<rparr> else s)"

text \<open>The end of an iteration of the thread: the loop goes on, or the system reboots.\<close>

datatype 's loop_end = Continue 's | Rebooting 's

definition sys_reboot :: "reboot_type \<Rightarrow> ('h, 'z) recovery_scheme \<Rightarrow> ('h, 'z) recovery_scheme loop_end" where
  "sys_reboot kind s = Rebooting (emit (Reboot kind) s)"

definition handle_safe_mode_reboot :: "('h, 'z) recovery_scheme \<Rightarrow> ('h, 'z) recovery_scheme loop_end" where
  "handle_safe_mode_reboot s =
     (let s = emit (LOG_EVT_SIMPLE L_WRN ''RECOVERY'' ''SAFE_MODE_TIMEOUT'') s;
          s = emit (LOG_EVT L_WRN ''RECOVERY'' ''SAFE_MODE_REBOOT'' [LU (safe_mode_delay_ms s)]) s
      in sys_reboot SYS_REBOOT_WARM s)"

text \<open>The second half of the iteration: what the thread does with the events it received.\<close>

definition recovery_handle_events ::
    "'h zephyr \<Rightarrow> u32 \<Rightarrow> ('h, 'z) recovery_scheme \<Rightarrow> ('h, 'z) recovery_scheme loop_end" where
  "recovery_handle_events z events s =
     (if events AND reason_bit RECOVERY_REASON_HEALTH_FAULT \<noteq> 0 then
        sys_reboot SYS_REBOOT_WARM (msleep z 200 (emit (LOG_EVT_SIMPLE L_ERR ''RECOVERY'' ''HEALTH_FAULT'') s))
      else if events AND reason_bit RECOVERY_REASON_MANUAL_TRIGGER \<noteq> 0 then
        sys_reboot SYS_REBOOT_WARM (msleep z 200 (emit (LOG_EVT_SIMPLE L_WRN ''RECOVERY'' ''MANUAL_TRIGGER'') s))
      else if events AND reason_bit RECOVERY_REASON_SAFE_MODE_TIMEOUT \<noteq> 0 then
        handle_safe_mode_reboot (s\<lparr>safe_mode_deadline := SAFE_MODE_DEADLINE_INACTIVE\<rparr>)
      else if events AND reason_bit RECOVERY_REASON_WATCHDOG_INIT_FAIL \<noteq> 0 then
        sys_reboot SYS_REBOOT_WARM (msleep z 200 (emit (LOG_EVT_SIMPLE L_ERR ''RECOVERY'' ''WATCHDOG_INIT_REBOOT'') s))
      else Continue s)"

text \<open>The timeout of the wait: the time left to the deadline, capped.\<close>

definition recovery_wait_time :: "int \<Rightarrow> k_timeout" where
  "recovery_wait_time delta = K_MSEC (nat (if INT32_MAX < delta then INT32_MAX else delta))"

definition recovery_thread_iteration ::
    "'h zephyr \<Rightarrow> ('h, 'z) recovery_scheme \<Rightarrow> ('h, 'z) recovery_scheme loop_end" where
  "recovery_thread_iteration z s =
     (let wait_for_events = (\<lambda>wait s.
            let (events, h) = k_event_wait z (mask (reason_number RECOVERY_REASON_COUNT)) True wait (hw s);
                s = s\<lparr>hw := h\<rparr>
            in if events = 0 then Continue s else recovery_handle_events z events s)
      in if safe_mode_deadline s \<noteq> SAFE_MODE_DEADLINE_INACTIVE then
           (let (now, h) = k_uptime_get z (hw s);
                s = s\<lparr>hw := h\<rparr>;
                delta = safe_mode_deadline s - now
            in if delta \<le> 0
               then handle_safe_mode_reboot (s\<lparr>safe_mode_deadline := SAFE_MODE_DEADLINE_INACTIVE\<rparr>)
               else wait_for_events (recovery_wait_time delta) s)
         else wait_for_events K_FOREVER s)"

definition recovery_start :: "'h zephyr \<Rightarrow> ('h, 'z) recovery_scheme \<Rightarrow> ('h, 'z) recovery_scheme" where
  "recovery_start z s = emit (Thread_Start ''recovery'') (s\<lparr>hw := k_event_init z (hw s)\<rparr>)"

definition recovery_schedule_safe_mode_reboot ::
    "'h zephyr \<Rightarrow> u32 \<Rightarrow> ('h, 'z) recovery_scheme \<Rightarrow> ('h, 'z) recovery_scheme" where
  "recovery_schedule_safe_mode_reboot z delay_ms s =
     (if delay_ms = 0 then
        (let was_scheduled = (safe_mode_deadline s \<noteq> SAFE_MODE_DEADLINE_INACTIVE);
             s = s\<lparr>safe_mode_deadline := SAFE_MODE_DEADLINE_INACTIVE, safe_mode_delay_ms := 0\<rparr>
         in if was_scheduled
            then emit (Wakeup ''recovery'') (emit (LOG_EVT_SIMPLE L_INF ''RECOVERY'' ''SAFE_MODE_REBOOT_CANCELLED'') s)
            else s)
      else
        (let (now, h) = k_uptime_get z (hw s);
             s = s\<lparr>hw := h, safe_mode_deadline := now + uint delay_ms, safe_mode_delay_ms := delay_ms\<rparr>;
             s = emit (LOG_EVT L_INF ''RECOVERY'' ''SAFE_MODE_REBOOT_SCHEDULED'' [LU delay_ms]) s
         in emit (Wakeup ''recovery'') s))"

text \<open>The test hooks.\<close>

definition recovery_test_init_event :: "'h zephyr \<Rightarrow> ('h, 'z) recovery_scheme \<Rightarrow> ('h, 'z) recovery_scheme" where
  "recovery_test_init_event z s = s\<lparr>hw := k_event_init z (hw s), recovery_test_events := 0\<rparr>"

definition recovery_test_get_pending_events :: "('h, 'z) recovery_scheme \<Rightarrow> u32" where
  "recovery_test_get_pending_events s = recovery_test_events s"

definition recovery_test_clear_pending_events :: "('h, 'z) recovery_scheme \<Rightarrow> ('h, 'z) recovery_scheme" where
  "recovery_test_clear_pending_events s = s\<lparr>recovery_test_events := 0\<rparr>"

section \<open>Lemmas\<close>

lemma mask_reasons: "mask 4 = (15 :: u32)"
  by (simp add: mask_eq_exp_minus_1)

lemma reason_bits:
  "reason_bit RECOVERY_REASON_HEALTH_FAULT = 1" "reason_bit RECOVERY_REASON_MANUAL_TRIGGER = 2"
  "reason_bit RECOVERY_REASON_SAFE_MODE_TIMEOUT = 4" "reason_bit RECOVERY_REASON_WATCHDOG_INIT_FAIL = 8"
  by (simp_all add: reason_bit_def)

lemma and_one_bit: "(w :: u32) AND 2 ^ n = (if bit w n then 2 ^ n else 0)"
  by (rule bit_word_eqI) (auto simp: bit_simps)

lemma and_15_eq_0: "(w :: u32) AND 15 = 0 \<longleftrightarrow> w AND 1 = 0 \<and> w AND 2 = 0 \<and> w AND 4 = 0 \<and> w AND 8 = 0"
proof -
  have "(15 :: u32) = 1 OR 2 OR 4 OR 8"
    by simp
  then show ?thesis
    by (simp only: bit.conj_disj_distrib or_eq_0_iff)
qed

fun reboots :: "('h, 'z) recovery_scheme loop_end \<Rightarrow> bool" where
  "reboots (Continue t) = False"
| "reboots (Rebooting t) = (\<exists>tr. trace t = tr @ [Reboot SYS_REBOOT_WARM])"

lemma sys_reboot_reboots [simp]: "reboots (sys_reboot SYS_REBOOT_WARM s)" "\<not> sys_reboot k s = Continue t"
  by (simp_all add: sys_reboot_def)

lemma safe_mode_reboot_reboots [simp]: "reboots (handle_safe_mode_reboot s)" "\<not> handle_safe_mode_reboot s = Continue t"
  by (simp_all add: handle_safe_mode_reboot_def Let_def)

text \<open>Each of the four events ends in a reboot, and nothing else does.\<close>

lemma handle_events_cases:
  "if events AND 15 = 0 then recovery_handle_events z events s = Continue s
   else reboots (recovery_handle_events z events s)"
  by (simp add: recovery_handle_events_def reason_bits and_15_eq_0)

lemma handle_events_quiet [simp]: "events AND 15 = 0 \<Longrightarrow> recovery_handle_events z events s = Continue s"
  using handle_events_cases [of events z s] by simp

lemma handle_events_reboots [simp]: "events AND 15 \<noteq> 0 \<Longrightarrow> reboots (recovery_handle_events z events s)"
  using handle_events_cases [of events z s] by simp

lemma handle_events_iff: "reboots (recovery_handle_events z events s) \<longleftrightarrow> events AND 15 \<noteq> 0"
    "recovery_handle_events z events s = Continue t \<longleftrightarrow> events AND 15 = 0 \<and> t = s"
  by (cases "events AND 15 = 0"; simp; metis handle_events_reboots reboots.simps(1) loop_end.inject(1))+

text \<open>The iteration in its two cases.\<close>

lemma iteration_inactive:
  assumes "safe_mode_deadline s = SAFE_MODE_DEADLINE_INACTIVE"
  shows "recovery_thread_iteration z s =
     (case k_event_wait z 15 True K_FOREVER (hw s) of
        (events, h) \<Rightarrow> recovery_handle_events z events (s\<lparr>hw := h\<rparr>))"
  using assms by (simp add: recovery_thread_iteration_def mask_reasons case_prod_beta Let_def)

lemma iteration_active:
  assumes "safe_mode_deadline s \<noteq> SAFE_MODE_DEADLINE_INACTIVE" "k_uptime_get z (hw s) = (now, h)"
  shows "recovery_thread_iteration z s =
     (if safe_mode_deadline s \<le> now
      then handle_safe_mode_reboot (s\<lparr>hw := h, safe_mode_deadline := SAFE_MODE_DEADLINE_INACTIVE\<rparr>)
      else case k_event_wait z 15 True (recovery_wait_time (safe_mode_deadline s - now)) h of
        (events, h) \<Rightarrow> recovery_handle_events z events (s\<lparr>hw := h\<rparr>))"
  using assms by (simp add: recovery_thread_iteration_def mask_reasons case_prod_beta Let_def)

lemma request_frame:
  "safe_mode_deadline (recovery_request z cfg r s) = safe_mode_deadline s"
  "hw (recovery_request z cfg r s) = (if r = RECOVERY_REASON_COUNT then hw s else k_event_post z (reason_bit r) (hw s))"
  by (simp_all add: recovery_request_def valid_reason emit_def Let_def)

section \<open>A board for the witnesses\<close>

definition sim_recovery :: "(sim, unit) recovery_scheme" where
  "sim_recovery = watchdog.extend sim_watchdog
     \<lparr>safe_mode_deadline = SAFE_MODE_DEADLINE_INACTIVE, safe_mode_delay_ms = 0, recovery_test_events = 0\<rparr>"

lemma sim_recovery_deadline [simp]: "safe_mode_deadline sim_recovery = SAFE_MODE_DEADLINE_INACTIVE"
  by (simp add: sim_recovery_def watchdog.defs)

lemma sim_wait: "fst (k_event_wait sim_board 15 True wait h) = 0"
  by (simp add: sim_board_def Let_def)

lemma sim_uptime: "k_uptime_get sim_board h = (sim_clock h, h\<lparr>sim_clock := sim_clock h + 1\<rparr>)"
  by (simp add: sim_board_def)

section \<open>Properties\<close>

text \<open>
  Claim C14. One iteration of the recovery thread, with a safe-mode deadline pending or without. It
  ends in a reboot exactly when a pending deadline has passed or the wait returned one of the four
  recovery events, and the reboot is always a warm one; otherwise it goes on with nothing changed but
  the hardware. Without a deadline the wait is \<open>K_FOREVER\<close>; with one it is a positive time below
  \<open>2^31\<close> ms that ends no later than the deadline.
\<close>

theorem recovery_reboots_exactly:
  assumes active: "active \<longleftrightarrow> safe_mode_deadline s \<noteq> SAFE_MODE_DEADLINE_INACTIVE"
    and clock: "(now, h) = (if active then k_uptime_get z (hw s) else (0, hw s))"
    and wait: "wait = (if active then recovery_wait_time (safe_mode_deadline s - now) else K_FOREVER)"
  shows "(reboots (recovery_thread_iteration z s) \<longleftrightarrow>
       active \<and> safe_mode_deadline s \<le> now \<or> fst (k_event_wait z 15 True wait h) AND 15 \<noteq> 0) \<and>
     (\<not> reboots (recovery_thread_iteration z s) \<longrightarrow>
       recovery_thread_iteration z s = Continue (s\<lparr>hw := snd (k_event_wait z 15 True wait h)\<rparr>)) \<and>
     (active \<and> now < safe_mode_deadline s \<longrightarrow>
       (\<exists>m. wait = K_MSEC m \<and> 0 < m \<and> m < 2 ^ 31 \<and> now + int m \<le> safe_mode_deadline s)) \<and>
     (\<not> active \<longrightarrow> wait = K_FOREVER)"
proof (cases active)
  case False
  then show ?thesis
    using assms by (simp add: iteration_inactive case_prod_beta handle_events_iff)
next
  case True
  have "\<exists>m. wait = K_MSEC m \<and> 0 < m \<and> m < 2 ^ 31 \<and> now + int m \<le> safe_mode_deadline s" if "now < safe_mode_deadline s"
    using that True by (auto simp: wait recovery_wait_time_def INT32_MAX_def)
  moreover have "safe_mode_deadline s \<noteq> SAFE_MODE_DEADLINE_INACTIVE" "k_uptime_get z (hw s) = (now, h)"
    using active clock True by simp_all
  ultimately show ?thesis
    using True wait by (auto simp: iteration_active case_prod_beta handle_events_iff)
qed

theorem recovery_reboots_exactly_witness:
  "reboots (recovery_thread_iteration sim_board (sim_recovery\<lparr>safe_mode_deadline := 5, hw := sim_boot\<lparr>sim_clock := 7\<rparr>\<rparr>)) \<and>
   \<not> reboots (recovery_thread_iteration sim_board (sim_recovery\<lparr>safe_mode_deadline := 9, hw := sim_boot\<lparr>sim_clock := 7\<rparr>\<rparr>)) \<and>
   \<not> reboots (recovery_thread_iteration sim_board (sim_recovery\<lparr>hw := sim_boot\<rparr>))"
  using recovery_reboots_exactly [of True "sim_recovery\<lparr>safe_mode_deadline := 5, hw := sim_boot\<lparr>sim_clock := 7\<rparr>\<rparr>"
      7 "sim_boot\<lparr>sim_clock := 8\<rparr>" sim_board, OF _ _ refl]
    recovery_reboots_exactly [of True "sim_recovery\<lparr>safe_mode_deadline := 9, hw := sim_boot\<lparr>sim_clock := 7\<rparr>\<rparr>"
      7 "sim_boot\<lparr>sim_clock := 8\<rparr>" sim_board, OF _ _ refl]
    recovery_reboots_exactly [of False "sim_recovery\<lparr>hw := sim_boot\<rparr>" 0 sim_boot sim_board, OF _ _ refl]
  by (simp add: sim_wait sim_uptime SAFE_MODE_DEADLINE_INACTIVE_def)

text \<open>
  Claim C15. Safe mode: a reboot scheduled with a delay of \<open>d\<close> milliseconds happens at the first
  iteration that reads an uptime of at least \<open>d\<close> more than at the schedule, not before; scheduling 0
  cancels it. (No event arrives during the wait.)
\<close>

theorem safe_mode_reboot_on_time:
  assumes z: "\<forall>wait h. fst (k_event_wait z 15 True wait h) = 0" and t: "0 \<le> fst (k_uptime_get z (hw s))"
    and u: "safe_mode_deadline u = safe_mode_deadline (recovery_schedule_safe_mode_reboot z d s)"
  shows "reboots (recovery_thread_iteration z u) \<longleftrightarrow>
     d \<noteq> 0 \<and> fst (k_uptime_get z (hw s)) + uint d \<le> fst (k_uptime_get z (hw u))"
proof (cases "d = 0")
  case True
  then have "safe_mode_deadline u = SAFE_MODE_DEADLINE_INACTIVE"
    using u by (simp add: recovery_schedule_safe_mode_reboot_def emit_def Let_def split: if_splits)
  then show ?thesis
    using z True by (simp add: iteration_inactive case_prod_beta)
next
  case False
  then have deadline: "safe_mode_deadline u = fst (k_uptime_get z (hw s)) + uint d"
    using u by (simp add: recovery_schedule_safe_mode_reboot_def emit_def case_prod_beta Let_def)
  then have "safe_mode_deadline u \<noteq> SAFE_MODE_DEADLINE_INACTIVE"
    using t uint_ge_0 [of d] zero_less_power [of "2 :: int" 63] unfolding deadline SAFE_MODE_DEADLINE_INACTIVE_def
    by linarith
  then show ?thesis
    using z False by (simp add: iteration_active [OF _ surjective_pairing] case_prod_beta deadline)
qed

theorem safe_mode_reboot_on_time_witness:
  "\<not> reboots (recovery_thread_iteration sim_board
      (recovery_schedule_safe_mode_reboot sim_board 60000 (sim_recovery\<lparr>hw := sim_boot\<rparr>)))"
  using safe_mode_reboot_on_time [of sim_board "sim_recovery\<lparr>hw := sim_boot\<rparr>"
      "recovery_schedule_safe_mode_reboot sim_board 60000 (sim_recovery\<lparr>hw := sim_boot\<rparr>)" 60000]
  by (simp add: sim_wait sim_uptime sim_boot_def recovery_schedule_safe_mode_reboot_def)

text \<open>
  Claim C29. A request made before the thread waits is lost: the wait clears all pending events first
  (\<open>reset = true\<close>), so a thread that would go on waiting does so no matter which request has been
  queued. In particular a failed watchdog initialisation in \<open>main\<close>, which runs before the thread is
  first scheduled, does not lead to the reboot it asks for.
\<close>

theorem request_before_wait_is_lost:
  assumes z: "k_event_reset_ok z ev_clear" and s: "safe_mode_deadline s = SAFE_MODE_DEADLINE_INACTIVE"
    and idle: "recovery_thread_iteration z s = Continue t"
  shows "\<exists>t'. recovery_thread_iteration z (recovery_request z cfg reason s) = Continue t' \<and> hw t' = hw t"
proof -
  have same: "k_event_wait z 15 True K_FOREVER (hw (recovery_request z cfg reason s)) = k_event_wait z 15 True K_FOREVER (hw s)"
    using z by (simp add: request_frame k_event_reset_ok_def)
  let ?e = "fst (k_event_wait z 15 True K_FOREVER (hw s))"
  have "?e AND 15 = 0" "hw t = snd (k_event_wait z 15 True K_FOREVER (hw s))"
    using idle by (auto simp: iteration_inactive [OF s] case_prod_beta handle_events_iff)
  then show ?thesis
    using same s by (simp add: iteration_inactive request_frame case_prod_beta)
qed

theorem request_before_wait_is_lost_witness:
  "\<exists>t. recovery_thread_iteration sim_board
     (recovery_request sim_board prj_conf RECOVERY_REASON_WATCHDOG_INIT_FAIL (recovery_start sim_board sim_recovery)) = Continue t"
proof -
  have s: "safe_mode_deadline (recovery_start sim_board sim_recovery) = SAFE_MODE_DEADLINE_INACTIVE"
    by (simp add: recovery_start_def emit_def)
  have "\<exists>t. recovery_thread_iteration sim_board (recovery_start sim_board sim_recovery) = Continue t"
    by (simp add: iteration_inactive [OF s] case_prod_beta handle_events_iff sim_wait)
  then show ?thesis
    using request_before_wait_is_lost [OF sim_k_event_reset_ok s] by blast
qed

end
