(* ===== verification/Supervisor.thy ===== *)
theory Supervisor
  imports Recovery
begin

text \<open>
  \<open>src/supervisor.c\<close>: the thread that feeds the watchdog while the LED and the system heartbeat are
  fresh, retunes it to its steady timeout, clears the persistent reset counter once the system is
  stable, and asks for recovery when it is not. The thread is one iteration of its loop, with the
  local \<open>fail_count\<close> as an argument; an iteration is \<open>None\<close> when the wait inside a retune never ends.
\<close>

section \<open>State\<close>

definition SUPERVISOR_PERIOD_MS :: "app_config \<Rightarrow> nat" where
  "SUPERVISOR_PERIOD_MS cfg = (if ZTEST cfg then 50 else 1000)"

definition SUPERVISOR_BOOT_GRACE_MS :: "app_config \<Rightarrow> int" where
  "SUPERVISOR_BOOT_GRACE_MS cfg = (if ZTEST cfg then 150 else 3000)"

definition SUPERVISOR_MAX_FAILURES :: u32 where
  "SUPERVISOR_MAX_FAILURES = 3"

record watchdog_cfg =
  desired_timeout_ms :: u32
  retune_delay_ms :: u32
  retune_ready_ts :: int
  monitor_led :: bool
  retune_pending :: bool
  retune_done_once :: bool
  retune_failed_logged :: bool

record 'h supervisor = "'h recovery" +
  led_last_seen :: u32
  sys_last_seen :: u32
  supervisor_boot_ts :: int
  watchdog_counter_cleared :: bool
  wd_cfg :: watchdog_cfg
  supervisor_thread_started :: bool

record health_status =
  led_ok :: bool
  hb_ok :: bool
  led_age :: u32
  hb_age :: u32

section \<open>The code\<close>

definition update_retune_schedule_locked ::
    "'h zephyr \<Rightarrow> bool \<Rightarrow> ('h, 'z) supervisor_scheme \<Rightarrow> ('h, 'z) supervisor_scheme" where
  "update_retune_schedule_locked z apply_immediately s =
     (let (now, h) = k_uptime_get z (hw s);
          s = s\<lparr>hw := h\<rparr>;
          c = wd_cfg s;
          c = c\<lparr>retune_ready_ts := now + (if apply_immediately then 0 else uint (retune_delay_ms c))\<rparr>;
          c = c\<lparr>retune_pending := (desired_timeout_ms c \<noteq> watchdog_ctrl_get_timeout s)\<rparr>;
          c = (if \<not> retune_pending c then c\<lparr>retune_done_once := True\<rparr> else c)
      in s\<lparr>wd_cfg := c\<lparr>retune_failed_logged := False\<rparr>\<rparr>)"

definition snapshot_watchdog_cfg :: "('h, 'z) supervisor_scheme \<Rightarrow> watchdog_cfg" where
  "snapshot_watchdog_cfg s = wd_cfg s"

text \<open>Whether the feed succeeded, and the failure count, which is \<open>None\<close> for a \<open>NULL\<close> argument.\<close>

definition feed_watchdog ::
    "'h zephyr \<Rightarrow> string \<Rightarrow> u32 option \<Rightarrow> ('h, 'z) supervisor_scheme
       \<Rightarrow> bool \<times> u32 option \<times> ('h, 'z) supervisor_scheme" where
  "feed_watchdog z ctx fail_count s =
     (let (ret, s) = watchdog_ctrl_feed z s
      in if ret = 0 then (True, fail_count, s)
         else if ret = - EBUSY then (False, fail_count, s)
         else if ret = - EAGAIN then (False, fail_count, s)
         else let s = emit (LOG_EVT L_ERR ''WATCHDOG'' ''FEED_FAIL'' [LStr ctx, LNum ret]) s
              in (False, map_option (\<lambda>n. n + 1) fail_count, s))"

definition sample_health :: "app_config \<Rightarrow> watchdog_cfg \<Rightarrow> u32 \<Rightarrow> ('h, 'z) supervisor_scheme \<Rightarrow> health_status" where
  "sample_health cfg wcfg now32 s =
     (let status = \<lparr>led_ok = True, hb_ok = False, led_age = 0, hb_age = 0\<rparr>;
          hb_last = sys_last_seen s;
          status = (if hb_last = 0 then status\<lparr>hb_ok := False, hb_age := - 1\<rparr>
                    else let age = now32 - hb_last
                         in status\<lparr>hb_age := age, hb_ok := age \<le> APP_HEALTH_SYS_STALE_MS cfg\<rparr>)
      in if \<not> monitor_led wcfg then status\<lparr>led_ok := True, led_age := 0\<rparr>
         else let led_last = led_last_seen s
              in if led_last = 0 then status\<lparr>led_ok := False, led_age := - 1\<rparr>
                 else let age = now32 - led_last
                      in status\<lparr>led_age := age, led_ok := age \<le> APP_HEALTH_LED_STALE_MS cfg\<rparr>)"

definition supervisor_notify_led_alive :: "'h zephyr \<Rightarrow> ('h, 'z) supervisor_scheme \<Rightarrow> ('h, 'z) supervisor_scheme" where
  "supervisor_notify_led_alive z s =
     (let (now, h) = k_uptime_get_32 z (hw s) in s\<lparr>hw := h, led_last_seen := now\<rparr>)"

definition supervisor_notify_system_alive :: "'h zephyr \<Rightarrow> ('h, 'z) supervisor_scheme \<Rightarrow> ('h, 'z) supervisor_scheme" where
  "supervisor_notify_system_alive z s =
     (let (now, h) = k_uptime_get_32 z (hw s) in s\<lparr>hw := h, sys_last_seen := now\<rparr>)"

definition attempt_watchdog_retune ::
    "'h zephyr \<Rightarrow> app_config \<Rightarrow> watchdog_cfg \<Rightarrow> int \<Rightarrow> ('h, 'z) supervisor_scheme \<Rightarrow> ('h, 'z) supervisor_scheme option" where
  "attempt_watchdog_retune z cfg wcfg now s =
     (if \<not> retune_pending wcfg \<or> now < retune_ready_ts wcfg then Some s
      else case watchdog_ctrl_retune z cfg (desired_timeout_ms wcfg) s of
        None \<Rightarrow> None
      | Some (rc, s) \<Rightarrow> Some (
          if rc = 0 then
            let s = emit (LOG_EVT L_INF ''WATCHDOG'' ''RETUNED'' [LU (desired_timeout_ms wcfg)]) s;
                s = s\<lparr>wd_cfg := (wd_cfg s)\<lparr>retune_pending := False, retune_done_once := True,
                        retune_failed_logged := False\<rparr>\<rparr>;
                s = persist_state_clear_watchdog_counter z cfg s
            in s\<lparr>watchdog_counter_cleared := True\<rparr>
          else if rc = - ENOTSUP \<or> rc = - ENOTTY then
            let s = (if \<not> retune_failed_logged wcfg
                     then emit (LOG_EVT L_WRN ''WATCHDOG'' ''RETUNE_NOT_SUPPORTED'' [LNum rc]) s else s)
            in s\<lparr>wd_cfg := (wd_cfg s)\<lparr>retune_pending := False, retune_done_once := True,
                   retune_failed_logged := True\<rparr>\<rparr>
          else
            let s = emit (LOG_EVT L_WRN ''WATCHDOG'' ''RETUNE_DEFERRED'' [LNum rc]) s
            in s\<lparr>wd_cfg := (wd_cfg s)\<lparr>retune_ready_ts := now + int (SUPERVISOR_PERIOD_MS cfg)\<rparr>\<rparr>))"

text \<open>The three-way decision of the loop body, for a health sample and a failure count.\<close>

definition supervisor_act ::
    "'h zephyr \<Rightarrow> app_config \<Rightarrow> watchdog_cfg \<Rightarrow> health_status \<Rightarrow> bool \<Rightarrow> u32 \<Rightarrow> ('h, 'z) supervisor_scheme
       \<Rightarrow> u32 \<times> ('h, 'z) supervisor_scheme" where
  "supervisor_act z cfg wcfg health in_boot_grace fail_count s =
     (if in_boot_grace then
        (0, if watchdog_ctrl_is_enabled s then snd (snd (feed_watchdog z ''boot grace'' None s)) else s)
      else if led_ok health \<and> hb_ok health then
        (if watchdog_ctrl_is_enabled s then
           (let (fed, fc, s) = feed_watchdog z ''steady-state'' (Some fail_count) s;
                fail_count = the fc
            in if fed then (0, s)
               else if SUPERVISOR_MAX_FAILURES \<le> fail_count
               then (0, recovery_request z cfg RECOVERY_REASON_HEALTH_FAULT s)
               else (fail_count, s))
         else (0, s))
      else
        (let fail_count = fail_count + 1;
             led_status = (if monitor_led wcfg then (if led_ok health then ''ok'' else ''stale'') else ''disabled'');
             s = emit (LOG_EVT L_WRN ''HEALTH'' ''DEGRADED''
                   [LU fail_count, LStr led_status, LU (if monitor_led wcfg then led_age health else 0),
                    LStr (if hb_ok health then ''ok'' else ''stale''), LU (hb_age health)]) s
         in if SUPERVISOR_MAX_FAILURES \<le> fail_count
            then (0, recovery_request z cfg RECOVERY_REASON_HEALTH_FAULT
                       (emit (LOG_EVT_SIMPLE L_ERR ''HEALTH'' ''RECOVERY_REQUEST'') s))
            else (fail_count, s)))"

definition supervisor_thread_iteration ::
    "'h zephyr \<Rightarrow> app_config \<Rightarrow> u32 \<Rightarrow> ('h, 'z) supervisor_scheme \<Rightarrow> (u32 \<times> ('h, 'z) supervisor_scheme) option" where
  "supervisor_thread_iteration z cfg fail_count s =
     (let (now, h) = k_uptime_get z (hw s);
          s = s\<lparr>hw := h\<rparr>;
          now32 = word_of_int now;
          wcfg = snapshot_watchdog_cfg s
      in case attempt_watchdog_retune z cfg wcfg now s of
           None \<Rightarrow> None
         | Some s \<Rightarrow>
             let health = sample_health cfg wcfg now32 s;
                 in_boot_grace = (now - supervisor_boot_ts s < SUPERVISOR_BOOT_GRACE_MS cfg);
                 s = (if \<not> watchdog_counter_cleared s \<and> retune_done_once wcfg \<and> \<not> in_boot_grace \<and>
                        led_ok health \<and> hb_ok health
                      then (persist_state_clear_watchdog_counter z cfg s)\<lparr>watchdog_counter_cleared := True\<rparr>
                      else s);
                 (fail_count, s) = supervisor_act z cfg wcfg health in_boot_grace fail_count s
             in Some (fail_count, msleep z (SUPERVISOR_PERIOD_MS cfg) s))"

definition supervisor_start ::
    "'h zephyr \<Rightarrow> app_config \<Rightarrow> u32 \<Rightarrow> u32 \<Rightarrow> bool \<Rightarrow> ('h, 'z) supervisor_scheme \<Rightarrow> ('h, 'z) supervisor_scheme" where
  "supervisor_start z cfg steady_timeout_ms delay_ms mon_led s =
     (let (now, h) = k_uptime_get z (hw s);
          s = s\<lparr>hw := h, supervisor_boot_ts := now, watchdog_counter_cleared := False\<rparr>;
          (now32, h) = k_uptime_get_32 z (hw s);
          s = s\<lparr>hw := h, sys_last_seen := now32\<rparr>;
          s = (if \<not> mon_led
               then let (now32, h) = k_uptime_get_32 z (hw s) in s\<lparr>hw := h, led_last_seen := now32\<rparr> else s);
          s = s\<lparr>wd_cfg := (wd_cfg s)\<lparr>desired_timeout_ms := steady_timeout_ms, retune_delay_ms := delay_ms,
                  monitor_led := mon_led, retune_done_once := False, retune_pending := True,
                  retune_failed_logged := False\<rparr>\<rparr>;
          s = update_retune_schedule_locked z False s;
          s = emit (Thread_Start ''supervisor'') s
      in if ZTEST cfg then s\<lparr>supervisor_thread_started := True\<rparr> else s)"

definition supervisor_request_watchdog_target ::
    "'h zephyr \<Rightarrow> u32 \<Rightarrow> bool \<Rightarrow> ('h, 'z) supervisor_scheme \<Rightarrow> rc \<times> ('h, 'z) supervisor_scheme" where
  "supervisor_request_watchdog_target z timeout_ms apply_immediately s =
     (let s = s\<lparr>wd_cfg := (wd_cfg s)\<lparr>desired_timeout_ms := timeout_ms, retune_done_once := False\<rparr>,
                watchdog_counter_cleared := False\<rparr>
      in (0, update_retune_schedule_locked z apply_immediately s))"

definition supervisor_get_watchdog_target :: "('h, 'z) supervisor_scheme \<Rightarrow> u32" where
  "supervisor_get_watchdog_target s = desired_timeout_ms (wd_cfg s)"

definition supervisor_request_manual_recovery ::
    "'h zephyr \<Rightarrow> app_config \<Rightarrow> ('h, 'z) supervisor_scheme \<Rightarrow> ('h, 'z) supervisor_scheme" where
  "supervisor_request_manual_recovery z cfg s = recovery_request z cfg RECOVERY_REASON_MANUAL_TRIGGER s"

text \<open>The test hooks. The snapshot of a health sample has the same four fields as the sample.\<close>

definition zero_watchdog_cfg :: watchdog_cfg where
  "zero_watchdog_cfg = \<lparr>desired_timeout_ms = 0, retune_delay_ms = 0, retune_ready_ts = 0, monitor_led = False,
     retune_pending = False, retune_done_once = False, retune_failed_logged = False\<rparr>"


definition supervisor_test_sample :: "app_config \<Rightarrow> bool \<Rightarrow> u32 \<Rightarrow> ('h, 'z) supervisor_scheme \<Rightarrow> health_status" where
  "supervisor_test_sample cfg mon_led now32 s =
     sample_health cfg (zero_watchdog_cfg\<lparr>monitor_led := mon_led\<rparr>) now32 s"

definition supervisor_test_reset :: "('h, 'z) supervisor_scheme \<Rightarrow> ('h, 'z) supervisor_scheme" where
  "supervisor_test_reset s =
     (let s = (if supervisor_thread_started s then s\<lparr>supervisor_thread_started := False\<rparr> else s)
      in s\<lparr>led_last_seen := 0, sys_last_seen := 0, watchdog_counter_cleared := False, supervisor_boot_ts := 0,
           wd_cfg := zero_watchdog_cfg\<rparr>)"

section \<open>Frame lemmas\<close>

lemma supervisor_fields:
  fixes s t :: "('h, 'z) supervisor_scheme"
  assumes "persist.more s = persist.more t"
  shows "wd_cfg s = wd_cfg t" "watchdog_counter_cleared s = watchdog_counter_cleared t"
    "led_last_seen s = led_last_seen t" "sys_last_seen s = sys_last_seen t"
    "supervisor_boot_ts s = supervisor_boot_ts t" "feed_enabled s = feed_enabled t"
    "wdt_channel_id s = wdt_channel_id t" "current_timeout_ms s = current_timeout_ms t"
    "safe_mode_deadline s = safe_mode_deadline t"
  using assms by (cases s; cases t; simp)+

lemmas clear_fields [simp] = supervisor_fields [OF persist_ops_more(3)]
lemmas override_fields [simp] = supervisor_fields [OF persist_ops_more(4)]

lemma emit_supervisor [simp]:
  fixes s :: "('h, 'z) supervisor_scheme"
  shows "wd_cfg (emit e s) = wd_cfg s" "watchdog_counter_cleared (emit e s) = watchdog_counter_cleared s"
    "led_last_seen (emit e s) = led_last_seen s" "sys_last_seen (emit e s) = sys_last_seen s"
    "supervisor_boot_ts (emit e s) = supervisor_boot_ts s" "feed_enabled (emit e s) = feed_enabled s"
    "wdt_channel_id (emit e s) = wdt_channel_id s" "current_timeout_ms (emit e s) = current_timeout_ms s"
    "wd_cfg (msleep z n s) = wd_cfg s" "watchdog_counter_cleared (msleep z n s) = watchdog_counter_cleared s"
    "led_last_seen (msleep z n s) = led_last_seen s" "sys_last_seen (msleep z n s) = sys_last_seen s"
    "supervisor_boot_ts (msleep z n s) = supervisor_boot_ts s" "feed_enabled (msleep z n s) = feed_enabled s"
    "wdt_channel_id (msleep z n s) = wdt_channel_id s" "current_timeout_ms (msleep z n s) = current_timeout_ms s"
  by (simp_all add: emit_def msleep_def)

lemma request_supervisor [simp]:
  fixes s :: "('h, 'z) supervisor_scheme"
  shows "wd_cfg (recovery_request z cfg r s) = wd_cfg s"
    "watchdog_counter_cleared (recovery_request z cfg r s) = watchdog_counter_cleared s"
    "g_blob (recovery_request z cfg r s) = g_blob s" "g_loaded (recovery_request z cfg r s) = g_loaded s"
    "wdt_channel_id (recovery_request z cfg r s) = wdt_channel_id s"
    "current_timeout_ms (recovery_request z cfg r s) = current_timeout_ms s"
  by (simp_all add: recovery_request_def Let_def)

lemma feed_supervisor [simp]:
  fixes s :: "('h, 'z) supervisor_scheme"
  shows "wd_cfg (snd (watchdog_ctrl_feed z s)) = wd_cfg s"
    "watchdog_counter_cleared (snd (watchdog_ctrl_feed z s)) = watchdog_counter_cleared s"
    "g_blob (snd (watchdog_ctrl_feed z s)) = g_blob s" "g_loaded (snd (watchdog_ctrl_feed z s)) = g_loaded s"
  by (simp_all add: watchdog_ctrl_feed_def case_prod_beta)

lemma sample_health_cong:
  "led_last_seen t = led_last_seen s \<Longrightarrow> sys_last_seen t = sys_last_seen s \<Longrightarrow>
     sample_health cfg w n t = sample_health cfg w n s"
  by (simp add: sample_health_def Let_def)

text \<open>What a failed or successful feed does to the state of the supervisor.\<close>

definition same_supervision :: "('h, 'z) supervisor_scheme \<Rightarrow> ('h, 'z) supervisor_scheme \<Rightarrow> bool" where
  "same_supervision s t \<longleftrightarrow> wd_cfg t = wd_cfg s \<and> watchdog_counter_cleared t = watchdog_counter_cleared s \<and>
     g_blob t = g_blob s \<and> g_loaded t = g_loaded s \<and> wdt_channel_id t = wdt_channel_id s \<and>
     current_timeout_ms t = current_timeout_ms s"

lemma feed_watchdog_frame: "same_supervision s (snd (snd (feed_watchdog z ctx fc s)))"
  by (simp add: feed_watchdog_def same_supervision_def case_prod_beta Let_def)

lemma feed_watchdog_count:
  "fst (snd (feed_watchdog z ctx (Some n) s)) = Some n \<or>
   fst (snd (feed_watchdog z ctx (Some n) s)) = Some (n + 1) \<and> \<not> fst (feed_watchdog z ctx (Some n) s)"
  by (simp add: feed_watchdog_def case_prod_beta Let_def)

lemma act_frame: "same_supervision s (snd (supervisor_act z cfg w health grace fc s))"
proof -
  note feed = feed_watchdog_frame [of s z "''boot grace''" None] feed_watchdog_frame [of s z "''steady-state''" "Some fc"]
  show ?thesis
    using feed by (auto simp: supervisor_act_def same_supervision_def case_prod_beta Let_def)
qed

lemma act_count:
  assumes "unat fc < 3"
  shows "unat (fst (supervisor_act z cfg w health grace fc s)) < 3"
  using assms feed_watchdog_count [of z "''steady-state''" fc s]
  by (auto simp: supervisor_act_def SUPERVISOR_MAX_FAILURES_def word_le_nat_alt case_prod_beta Let_def not_le)

section \<open>One iteration\<close>

lemma iteration_cases:
  fixes s :: "('h, 'z) supervisor_scheme"
  assumes "supervisor_thread_iteration z cfg fc s = Some (fc', s')"
  obtains now h u v health grace where "k_uptime_get z (hw s) = (now, h)"
    "attempt_watchdog_retune z cfg (wd_cfg s) now (s\<lparr>hw := h\<rparr>) = Some u"
    "v = u \<or> retune_done_once (wd_cfg s) \<and> \<not> watchdog_counter_cleared u \<and>
       v = (persist_state_clear_watchdog_counter z cfg u)\<lparr>watchdog_counter_cleared := True\<rparr>"
    "fc' = fst (supervisor_act z cfg (wd_cfg s) health grace fc v)"
    "s' = msleep z (SUPERVISOR_PERIOD_MS cfg) (snd (supervisor_act z cfg (wd_cfg s) health grace fc v))"
proof -
  obtain now h where t: "k_uptime_get z (hw s) = (now, h)"
    by fastforce
  obtain u where u: "attempt_watchdog_retune z cfg (wd_cfg s) now (s\<lparr>hw := h\<rparr>) = Some u"
    using assms by (auto simp: supervisor_thread_iteration_def t snapshot_watchdog_cfg_def Let_def split: option.splits)
  define health where "health = sample_health cfg (wd_cfg s) (word_of_int now) u"
  define grace where "grace = (now - supervisor_boot_ts u < SUPERVISOR_BOOT_GRACE_MS cfg)"
  define v where "v = (if \<not> watchdog_counter_cleared u \<and> retune_done_once (wd_cfg s) \<and> \<not> grace \<and> led_ok health \<and> hb_ok health
    then (persist_state_clear_watchdog_counter z cfg u)\<lparr>watchdog_counter_cleared := True\<rparr> else u)"
  have "supervisor_thread_iteration z cfg fc s =
      Some (fst (supervisor_act z cfg (wd_cfg s) health grace fc v),
        msleep z (SUPERVISOR_PERIOD_MS cfg) (snd (supervisor_act z cfg (wd_cfg s) health grace fc v)))"
    by (simp add: supervisor_thread_iteration_def t u snapshot_watchdog_cfg_def case_prod_beta Let_def
        v_def health_def grace_def)
  then have "fc' = fst (supervisor_act z cfg (wd_cfg s) health grace fc v)"
    "s' = msleep z (SUPERVISOR_PERIOD_MS cfg) (snd (supervisor_act z cfg (wd_cfg s) health grace fc v))"
    using assms by simp_all
  then show ?thesis
    by (intro that [OF t u]) (auto simp: v_def)
qed

lemma attempt_not_due:
  "\<not> (retune_pending w \<and> retune_ready_ts w \<le> now) \<Longrightarrow> attempt_watchdog_retune z cfg w now s = Some s"
  by (auto simp: attempt_watchdog_retune_def)

section \<open>Reachable states\<close>

text \<open>
  The supervisor among the other threads: its own iterations, heartbeats, the feed switch, override
  and target requests of the UART, and anything that happens to the hardware in between. A target
  request is labelled with its timeout.
\<close>

inductive sup_step ::
    "'h zephyr \<Rightarrow> app_config \<Rightarrow> u32 option \<Rightarrow> u32 \<times> ('h, 'z) supervisor_scheme \<Rightarrow> u32 \<times> ('h, 'z) supervisor_scheme \<Rightarrow> bool"
  for z cfg where
  iterate: "supervisor_thread_iteration z cfg fc s = Some (fc', s') \<Longrightarrow> sup_step z cfg None (fc, s) (fc', s')"
| led_alive: "sup_step z cfg None (fc, s) (fc, supervisor_notify_led_alive z s)"
| system_alive: "sup_step z cfg None (fc, s) (fc, supervisor_notify_system_alive z s)"
| feed_switch: "sup_step z cfg None (fc, s) (fc, watchdog_ctrl_set_enabled z e s)"
| override: "sup_step z cfg None (fc, s) (fc, snd (persist_state_set_watchdog_override z cfg t s))"
| hardware: "sup_step z cfg None (fc, s) (fc, s\<lparr>hw := h\<rparr>)"
| target: "sup_step z cfg (Some t) (fc, s) (fc, snd (supervisor_request_watchdog_target z t b s))"

inductive_cases sup_stepE: "sup_step z cfg l (fc, s) c"

inductive sup_reachable ::
    "'h zephyr \<Rightarrow> app_config \<Rightarrow> u32 \<times> ('h, 'z) supervisor_scheme \<Rightarrow> bool" for z cfg where
  start: "sup_reachable z cfg (0, supervisor_start z cfg steady delay mon s)"
| step: "sup_reachable z cfg c \<Longrightarrow> sup_step z cfg l c c' \<Longrightarrow> sup_reachable z cfg c'"

definition schedule_ok :: "('h, 'z) supervisor_scheme \<Rightarrow> bool" where
  "schedule_ok s \<longleftrightarrow> (retune_pending (wd_cfg s) \<or> retune_done_once (wd_cfg s)) \<and>
     (watchdog_counter_cleared s \<longrightarrow> retune_done_once (wd_cfg s)) \<and>
     (retune_failed_logged (wd_cfg s) \<longrightarrow> \<not> retune_pending (wd_cfg s))"

lemma schedule_ok_cong: "same_supervision s t \<Longrightarrow> schedule_ok t \<longleftrightarrow> schedule_ok s"
  by (simp add: same_supervision_def schedule_ok_def)

lemma update_schedule_ok: "\<not> watchdog_counter_cleared s \<Longrightarrow> schedule_ok (update_retune_schedule_locked z b s)"
  by (simp add: update_retune_schedule_locked_def schedule_ok_def case_prod_beta Let_def)

lemma retune_fields:
  fixes s :: "('h, 'z) supervisor_scheme"
  assumes "watchdog_ctrl_retune z cfg t s = Some (rc, u)"
  shows "wd_cfg u = wd_cfg s" "watchdog_counter_cleared u = watchdog_counter_cleared s" "g_blob u = g_blob s"
    "g_loaded u = g_loaded s" "wdt_channel_id u = wdt_channel_id s"
  by (rule watchdog_retune_state [OF assms], simp)+

lemma attempt_schedule_ok:
  assumes "schedule_ok s" "attempt_watchdog_retune z cfg (wd_cfg s) now s = Some u"
  shows "schedule_ok u" "retune_done_once (wd_cfg s) \<longrightarrow> retune_done_once (wd_cfg u)"
  using assms
  by (auto simp: attempt_watchdog_retune_def schedule_ok_def Let_def retune_fields split: if_splits option.splits)

lemma iteration_schedule_ok:
  assumes "supervisor_thread_iteration z cfg fc s = Some (fc', s')" "schedule_ok s" "unat fc < 3"
  shows "schedule_ok s'" "unat fc' < 3"
proof -
  obtain now h u v health grace where it: "attempt_watchdog_retune z cfg (wd_cfg s) now (s\<lparr>hw := h\<rparr>) = Some u"
    "v = u \<or> retune_done_once (wd_cfg s) \<and> \<not> watchdog_counter_cleared u \<and>
       v = (persist_state_clear_watchdog_counter z cfg u)\<lparr>watchdog_counter_cleared := True\<rparr>"
    "fc' = fst (supervisor_act z cfg (wd_cfg s) health grace fc v)"
    "s' = msleep z (SUPERVISOR_PERIOD_MS cfg) (snd (supervisor_act z cfg (wd_cfg s) health grace fc v))"
    by (rule iteration_cases [OF assms(1)])
  have "schedule_ok (s\<lparr>hw := h\<rparr>)"
    using assms(2) by (simp add: schedule_ok_def)
  then have u: "schedule_ok u" "retune_done_once (wd_cfg s) \<longrightarrow> retune_done_once (wd_cfg u)"
    using attempt_schedule_ok [of "s\<lparr>hw := h\<rparr>"] it(1) by simp_all
  then have "schedule_ok v"
    using it(2) by (auto simp: schedule_ok_def)
  then have "schedule_ok (snd (supervisor_act z cfg (wd_cfg s) health grace fc v))"
    using schedule_ok_cong [OF act_frame] by blast
  then show "schedule_ok s'"
    by (simp add: it(4) schedule_ok_def)
  show "unat fc' < 3"
    unfolding it(3) by (rule act_count [OF assms(3)])
qed

lemma step_schedule_ok:
  assumes "sup_step z cfg l (fc, s) (fc', s')" "schedule_ok s" "unat fc < 3"
  shows "schedule_ok s' \<and> unat fc' < 3"
  using assms
proof (cases rule: sup_step.cases)
  case iterate
  then show ?thesis
    using iteration_schedule_ok assms(2,3) by blast
next
  case (target t b)
  then show ?thesis
    using assms(3) update_schedule_ok [of "s\<lparr>wd_cfg := (wd_cfg s)\<lparr>desired_timeout_ms := t, retune_done_once := False\<rparr>,
        watchdog_counter_cleared := False\<rparr>" z b]
    by (simp add: supervisor_request_watchdog_target_def Let_def)
qed (simp_all add: schedule_ok_def supervisor_notify_led_alive_def supervisor_notify_system_alive_def
    watchdog_ctrl_set_enabled_def case_prod_beta Let_def)

lemma start_schedule_ok: "schedule_ok (supervisor_start z cfg steady delay mon s)"
proof -
  have ok: "schedule_ok (emit e t\<lparr>supervisor_thread_started := b\<rparr>) \<longleftrightarrow> schedule_ok t"
    "schedule_ok (emit e t) \<longleftrightarrow> schedule_ok t" for e b and t :: "('a, 'b) supervisor_scheme"
    by (simp_all add: schedule_ok_def)
  show ?thesis
    unfolding supervisor_start_def Let_def case_prod_beta
    by (simp add: ok update_schedule_ok)
qed

section \<open>Targets that the hardware cannot reach\<close>

text \<open>The retune to timeout \<open>d\<close> is pending for ever; the reset counter stands at \<open>n\<close>.\<close>

definition stuck_at :: "u32 \<Rightarrow> u32 \<Rightarrow> ('h, 'z) supervisor_scheme \<Rightarrow> bool" where
  "stuck_at d n s \<longleftrightarrow> retune_pending (wd_cfg s) \<and> \<not> retune_done_once (wd_cfg s) \<and> \<not> watchdog_counter_cleared s \<and>
     desired_timeout_ms (wd_cfg s) = d \<and> current_timeout_ms s \<noteq> d \<and> g_loaded s \<and> consecutive_watchdog (g_blob s) = n"

lemma stuck_at_cong: "same_supervision s t \<Longrightarrow> stuck_at d n t \<longleftrightarrow> stuck_at d n s"
  by (simp add: same_supervision_def stuck_at_def)

lemma retune_unreachable:
  assumes "DT_ST_STM32_IWDG cfg" "fst (stm32_iwdg_compute cfg d) = - EINVAL" "current_timeout_ms s \<noteq> d"
  shows "\<exists>rc. watchdog_ctrl_retune z cfg d s = Some (rc, s) \<and> rc \<noteq> 0 \<and> rc \<noteq> - ENOTSUP \<and> rc \<noteq> - ENOTTY"
  using assms by (auto simp: watchdog_ctrl_retune_def stm32_iwdg_retune_hw_def case_prod_beta Let_def)

lemma attempt_stuck:
  assumes cfg: "DT_ST_STM32_IWDG cfg" "fst (stm32_iwdg_compute cfg d) = - EINVAL" and s: "stuck_at d n s"
    and u: "attempt_watchdog_retune z cfg (wd_cfg s) now s = Some u"
  shows "stuck_at d n u"
proof -
  obtain rc where rc: "watchdog_ctrl_retune z cfg d s = Some (rc, s)" "rc \<noteq> 0" "rc \<noteq> - ENOTSUP" "rc \<noteq> - ENOTTY"
    using retune_unreachable [OF cfg, of s z] s by (auto simp: stuck_at_def)
  then show ?thesis
    using u s by (auto simp: attempt_watchdog_retune_def stuck_at_def Let_def split: if_splits)
qed

lemma override_counter:
  "g_loaded s \<Longrightarrow> consecutive_watchdog (g_blob (snd (persist_state_set_watchdog_override z cfg t s))) =
     consecutive_watchdog (g_blob s) \<and> g_loaded (snd (persist_state_set_watchdog_override z cfg t s))"
  by (simp add: persist_state_set_watchdog_override_def commit_same Let_def)

lemma step_stuck:
  assumes cfg: "DT_ST_STM32_IWDG cfg" "fst (stm32_iwdg_compute cfg d) = - EINVAL"
    and "sup_step z cfg None (fc, s) (fc', s')" and s: "stuck_at d n s"
  shows "stuck_at d n s'"
  using assms(3)
proof (cases rule: sup_step.cases)
  case iterate
  then obtain now h u v health grace where it: "attempt_watchdog_retune z cfg (wd_cfg s) now (s\<lparr>hw := h\<rparr>) = Some u"
    "v = u \<or> retune_done_once (wd_cfg s) \<and> \<not> watchdog_counter_cleared u \<and>
       v = (persist_state_clear_watchdog_counter z cfg u)\<lparr>watchdog_counter_cleared := True\<rparr>"
    "s' = msleep z (SUPERVISOR_PERIOD_MS cfg) (snd (supervisor_act z cfg (wd_cfg s) health grace fc v))"
    by (blast elim: iteration_cases)
  have "stuck_at d n (s\<lparr>hw := h\<rparr>)"
    using s by (simp add: stuck_at_def)
  then have "stuck_at d n u"
    using attempt_stuck [OF cfg, of n "s\<lparr>hw := h\<rparr>" z now u] it(1) by simp
  moreover have "v = u"
    using it(2) s by (simp add: stuck_at_def)
  ultimately have "stuck_at d n (snd (supervisor_act z cfg (wd_cfg s) health grace fc v))"
    using stuck_at_cong [OF act_frame] by blast
  then show ?thesis
    by (simp add: it(3) stuck_at_def)
qed (use s override_counter in \<open>auto simp: stuck_at_def supervisor_notify_led_alive_def supervisor_notify_system_alive_def
    watchdog_ctrl_set_enabled_def case_prod_beta Let_def\<close>)

lemma start_stuck:
  assumes "g_loaded s" "current_timeout_ms s \<noteq> d"
  shows "stuck_at d (consecutive_watchdog (g_blob s)) (supervisor_start z cfg d delay mon s)"
  using assms unfolding supervisor_start_def Let_def case_prod_beta
  by (simp add: stuck_at_def update_retune_schedule_locked_def watchdog_ctrl_get_timeout_def case_prod_beta Let_def)

lemma request_stuck:
  assumes "g_loaded s" "current_timeout_ms s \<noteq> d"
  shows "stuck_at d (consecutive_watchdog (g_blob s)) (snd (supervisor_request_watchdog_target z d b s))"
  using assms
  by (simp add: stuck_at_def supervisor_request_watchdog_target_def update_retune_schedule_locked_def
      watchdog_ctrl_get_timeout_def case_prod_beta Let_def)

section \<open>Degraded iterations\<close>

definition degraded :: "'h zephyr \<Rightarrow> app_config \<Rightarrow> ('h, 'z) supervisor_scheme \<Rightarrow> bool" where
  \<comment> \<open>the grace period is over and a heartbeat is stale at the reading of the clock\<close>
  "degraded z cfg s \<longleftrightarrow> (let now = fst (k_uptime_get z (hw s)); health = sample_health cfg (wd_cfg s) (word_of_int now) s
     in SUPERVISOR_BOOT_GRACE_MS cfg \<le> now - supervisor_boot_ts s \<and> \<not> (led_ok health \<and> hb_ok health))"

definition retune_due :: "'h zephyr \<Rightarrow> ('h, 'z) supervisor_scheme \<Rightarrow> bool" where
  "retune_due z s \<longleftrightarrow> retune_pending (wd_cfg s) \<and> retune_ready_ts (wd_cfg s) \<le> fst (k_uptime_get z (hw s))"

text \<open>The first part of an iteration: the reading of the clock and the retune attempt, if one is due.\<close>

definition after_retune ::
    "'h zephyr \<Rightarrow> app_config \<Rightarrow> ('h, 'z) supervisor_scheme \<Rightarrow> ('h, 'z) supervisor_scheme option" where
  "after_retune z cfg s =
     (case k_uptime_get z (hw s) of (now, h) \<Rightarrow> attempt_watchdog_retune z cfg (wd_cfg s) now (s\<lparr>hw := h\<rparr>))"

lemma after_retune_not_due: "\<not> retune_due z s \<Longrightarrow> after_retune z cfg s = Some (s\<lparr>hw := snd (k_uptime_get z (hw s))\<rparr>)"
  by (simp add: after_retune_def retune_due_def case_prod_beta attempt_not_due)

lemma after_retune_total:
  assumes "clock_runs z up"
  shows "\<exists>u. after_retune z cfg s = Some u"
proof -
  let ?s = "s\<lparr>hw := snd (k_uptime_get z (hw s))\<rparr>"
  obtain rc t where "watchdog_ctrl_retune z cfg (desired_timeout_ms (wd_cfg s)) ?s = Some (rc, t)"
    using retune_total [OF assms] by blast
  then show ?thesis
    by (simp add: after_retune_def attempt_watchdog_retune_def case_prod_beta)
qed

lemma attempt_keeps:
  fixes s :: "('h, 'z) supervisor_scheme"
  assumes "attempt_watchdog_retune z cfg w now s = Some u"
  shows "led_last_seen u = led_last_seen s" "sys_last_seen u = sys_last_seen s"
    "supervisor_boot_ts u = supervisor_boot_ts s"
proof -
  have "led_last_seen t = led_last_seen s \<and> sys_last_seen t = sys_last_seen s \<and> supervisor_boot_ts t = supervisor_boot_ts s"
    if "watchdog_ctrl_retune z cfg d s = Some (rc, t)" for d rc t
    by (rule watchdog_retune_state [OF that]) simp
  with assms show "led_last_seen u = led_last_seen s" "sys_last_seen u = sys_last_seen s"
    "supervisor_boot_ts u = supervisor_boot_ts s"
    by (auto simp: attempt_watchdog_retune_def Let_def split: if_splits option.splits)
qed

definition health_fault_event :: effect where
  "health_fault_event = LOG_EVT L_WRN ''RECOVERY'' ''QUEUED'' [LNum 0, LStr ''persistent health fault'']"

lemma degraded_iteration:
  fixes s u :: "('h, 'z) supervisor_scheme"
  assumes "degraded z cfg s" "after_retune z cfg s = Some u"
  obtains s' ev where "supervisor_thread_iteration z cfg fc s = Some (if 3 \<le> fc + 1 then 0 else fc + 1, s')"
    "hw s' = k_msleep z (SUPERVISOR_PERIOD_MS cfg) (if 3 \<le> fc + 1 then k_event_post z 1 (hw u) else hw u)"
    "trace s' = trace u @ [Evt L_WRN ''HEALTH'' ''DEGRADED'' ev] @
       (if 3 \<le> fc + 1 then [LOG_EVT_SIMPLE L_ERR ''HEALTH'' ''RECOVERY_REQUEST'', health_fault_event] else []) @
       [Sleep (SUPERVISOR_PERIOD_MS cfg)]"
    "g_blob s' = g_blob u"
proof -
  obtain now h where t: "k_uptime_get z (hw s) = (now, h)"
    by fastforce
  then have att: "attempt_watchdog_retune z cfg (wd_cfg s) now (s\<lparr>hw := h\<rparr>) = Some u"
    using assms(2) by (simp add: after_retune_def)
  define health where "health = sample_health cfg (wd_cfg s) (word_of_int now) u"
  have same: "sample_health cfg (wd_cfg s) (word_of_int now) s = health" "supervisor_boot_ts u = supervisor_boot_ts s"
    unfolding health_def by (rule sample_health_cong) (simp_all add: attempt_keeps [OF att])
  have bad: "\<not> now - supervisor_boot_ts u < SUPERVISOR_BOOT_GRACE_MS cfg" "\<not> (led_ok health \<and> hb_ok health)"
    using assms(1) unfolding degraded_def Let_def t fst_conv same by auto
  have it: "supervisor_thread_iteration z cfg fc s =
      Some (fst (supervisor_act z cfg (wd_cfg s) health False fc u),
        msleep z (SUPERVISOR_PERIOD_MS cfg) (snd (supervisor_act z cfg (wd_cfg s) health False fc u)))"
    using bad by (auto simp: supervisor_thread_iteration_def t att snapshot_watchdog_cfg_def case_prod_beta Let_def
        simp flip: health_def)
  let ?ev = "[LU (fc + 1), LStr (if monitor_led (wd_cfg s) then (if led_ok health then ''ok'' else ''stale'') else ''disabled''),
    LU (if monitor_led (wd_cfg s) then led_age health else 0), LStr (if hb_ok health then ''ok'' else ''stale''),
    LU (hb_age health)]"
  have act: "supervisor_act z cfg (wd_cfg s) health False fc u =
     (let t = emit (Evt L_WRN ''HEALTH'' ''DEGRADED'' ?ev) u
      in if 3 \<le> fc + 1
         then (0, recovery_request z cfg RECOVERY_REASON_HEALTH_FAULT
                (emit (LOG_EVT_SIMPLE L_ERR ''HEALTH'' ''RECOVERY_REQUEST'') t))
         else (fc + 1, t))"
    unfolding supervisor_act_def if_not_P [OF bad(2)] if_False Let_def SUPERVISOR_MAX_FAILURES_def LOG_EVT_def ..
  show ?thesis
    by (rule that [of "msleep z (SUPERVISOR_PERIOD_MS cfg) (snd (supervisor_act z cfg (wd_cfg s) health False fc u))" ?ev];
        simp add: it act recovery_request_def valid_reason health_fault_event_def reason_bit_def Let_def)
qed

text \<open>
  An iteration that asks for recovery, from \<open>s\<close> to \<open>t\<close>: what it does after the retune attempt is to log
  the fault and the request, to post the recovery event, and to sleep.
\<close>

definition requests_recovery ::
    "'h zephyr \<Rightarrow> app_config \<Rightarrow> ('h, 'z) supervisor_scheme \<Rightarrow> ('h, 'z) supervisor_scheme \<Rightarrow> bool" where
  "requests_recovery z cfg s t \<longleftrightarrow> (\<exists>u ev. after_retune z cfg s = Some u \<and>
     hw t = k_msleep z (SUPERVISOR_PERIOD_MS cfg) (k_event_post z (reason_bit RECOVERY_REASON_HEALTH_FAULT) (hw u)) \<and>
     trace t = trace u @ [Evt L_WRN ''HEALTH'' ''DEGRADED'' ev, LOG_EVT_SIMPLE L_ERR ''HEALTH'' ''RECOVERY_REQUEST'',
       health_fault_event, Sleep (SUPERVISOR_PERIOD_MS cfg)])"

lemma strike:
  fixes s :: "('h, 'z) supervisor_scheme"
  assumes "clock_runs z up" "degraded z cfg s"
  shows "\<exists>t. supervisor_thread_iteration z cfg fc s = Some (if 3 \<le> fc + 1 then 0 else fc + 1, t) \<and>
     (3 \<le> fc + 1 \<longrightarrow> requests_recovery z cfg s t)"
proof -
  obtain u where u: "after_retune z cfg s = Some u"
    using after_retune_total [OF assms(1)] by blast
  show ?thesis
    by (rule degraded_iteration [OF assms(2) u, of fc]) (force simp: requests_recovery_def u reason_bits)
qed

text \<open>A retry that is due, while the target cannot be reached.\<close>

lemma stuck_deferred:
  assumes cfg: "DT_ST_STM32_IWDG cfg" "fst (stm32_iwdg_compute cfg d) = - EINVAL" and s: "stuck_at d n s"
    and due: "retune_due z s"
  shows "\<exists>u rc. after_retune z cfg s = Some u \<and> rc \<noteq> 0 \<and>
     trace u = trace s @ [LOG_EVT L_WRN ''WATCHDOG'' ''RETUNE_DEFERRED'' [LNum rc]] \<and> retune_pending (wd_cfg u) \<and>
     retune_ready_ts (wd_cfg u) = fst (k_uptime_get z (hw s)) + int (SUPERVISOR_PERIOD_MS cfg)"
proof -
  obtain now h where t: "k_uptime_get z (hw s) = (now, h)"
    by fastforce
  obtain rc where "watchdog_ctrl_retune z cfg d (s\<lparr>hw := h\<rparr>) = Some (rc, s\<lparr>hw := h\<rparr>)" "rc \<noteq> 0" "rc \<noteq> - ENOTSUP" "rc \<noteq> - ENOTTY"
    using retune_unreachable [OF cfg, of "s\<lparr>hw := h\<rparr>" z] s by (auto simp: stuck_at_def)
  then show ?thesis
    using s due
    by (auto simp: after_retune_def t attempt_watchdog_retune_def stuck_at_def retune_due_def emit_def Let_def)
qed

section \<open>Properties\<close>

text \<open>
  Claim C5. The schedule of the supervisor, in every state reachable from a start with any
  interleaving of heartbeats, feed switches, override and target requests and hardware activity: the
  failure count stays below the limit, a retune is either pending or has been settled once, and the
  persistent reset counter is only marked as cleared after the retune was settled.
\<close>

theorem supervisor_schedule_invariant:
  assumes "sup_reachable z cfg c"
  shows "unat (fst c) < 3 \<and>
     (retune_pending (wd_cfg (snd c)) \<or> retune_done_once (wd_cfg (snd c))) \<and>
     (watchdog_counter_cleared (snd c) \<longrightarrow> retune_done_once (wd_cfg (snd c))) \<and>
     (retune_failed_logged (wd_cfg (snd c)) \<longrightarrow> \<not> retune_pending (wd_cfg (snd c)))"
proof -
  have "unat (fst c) < 3 \<and> schedule_ok (snd c)"
    using assms
  proof (induction rule: sup_reachable.induct)
    case (step c l c')
    then show ?case
      using step_schedule_ok [of z cfg l "fst c" "snd c" "fst c'" "snd c'"] by simp
  qed (simp add: start_schedule_ok)
  then show ?thesis
    by (simp add: schedule_ok_def)
qed

definition sim_supervisor :: "(sim, unit) supervisor_scheme" where
  "sim_supervisor = recovery.extend sim_recovery
     \<lparr>led_last_seen = 0, sys_last_seen = 0, supervisor_boot_ts = 0, watchdog_counter_cleared = False,
      wd_cfg = zero_watchdog_cfg, supervisor_thread_started = False\<rparr>"

theorem supervisor_schedule_invariant_witness:
  "retune_pending (wd_cfg (supervisor_start sim_board prj_conf 2000 500 True sim_supervisor)) \<or>
   retune_done_once (wd_cfg (supervisor_start sim_board prj_conf 2000 500 True sim_supervisor))"
  using supervisor_schedule_invariant [OF sup_reachable.start [of sim_board prj_conf 2000 500 True sim_supervisor]]
  by simp

text \<open>
  Claim C13. When the grace period is over and a heartbeat is stale, all that an iteration does to the
  hardware after its retune attempt, once that returns, is to post the recovery event, at the third
  failure counted, and to sleep. When no retune is due the attempt is the reading of the clock and
  nothing more, so such an iteration does not touch the watchdog at all; when one is due, the retune
  is the only access. The stored record does not change after the attempt either.
\<close>

theorem degraded_iteration_never_feeds:
  assumes "degraded z cfg s" "after_retune z cfg s = Some u"
  shows "\<exists>s'. supervisor_thread_iteration z cfg fail_count s = Some (if 3 \<le> fail_count + 1 then 0 else fail_count + 1, s') \<and>
     hw s' = k_msleep z (SUPERVISOR_PERIOD_MS cfg)
       (if 3 \<le> fail_count + 1 then k_event_post z (reason_bit RECOVERY_REASON_HEALTH_FAULT) (hw u) else hw u) \<and>
     g_blob s' = g_blob u \<and>
     (\<not> retune_due z s \<longrightarrow> hw u = snd (k_uptime_get z (hw s)))"
proof -
  have "\<not> retune_due z s \<longrightarrow> hw u = snd (k_uptime_get z (hw s))"
    using after_retune_not_due [of z s cfg] assms(2) by auto
  with degraded_iteration [OF assms, of fail_count] show ?thesis
    by (metis reason_bits(1))
qed

text \<open>A board past its grace period with a stale heartbeat, and the same with a retune that is due.\<close>

definition sim_stale :: "(sim, unit) supervisor_scheme" where
  "sim_stale = sim_supervisor\<lparr>hw := sim_boot\<lparr>sim_clock := 20000\<rparr>, trace := [], sys_last_seen := 1\<rparr>"

definition sim_stale_due :: "(sim, unit) supervisor_scheme" where
  "sim_stale_due = sim_stale\<lparr>wd_cfg := zero_watchdog_cfg\<lparr>desired_timeout_ms := 2000, retune_pending := True\<rparr>\<rparr>"

lemma sim_stale_degraded: "degraded sim_board prj_conf sim_stale" "\<not> retune_due sim_board sim_stale"
    "degraded sim_board prj_conf sim_stale_due" "retune_due sim_board sim_stale_due"
  by (simp_all add: degraded_def retune_due_def sim_stale_def sim_stale_due_def sim_uptime sim_supervisor_def
      recovery.defs zero_watchdog_cfg_def sample_health_def SUPERVISOR_BOOT_GRACE_MS_def prj_conf_def
      kconfig_defaults_def Let_def)

theorem degraded_iteration_never_feeds_witness:
  "\<exists>s'. supervisor_thread_iteration sim_board prj_conf 2 sim_stale = Some (0, s') \<and>
     hw s' = k_msleep sim_board 1000 (k_event_post sim_board 1 (snd (k_uptime_get sim_board (hw sim_stale))))"
proof -
  have "SUPERVISOR_PERIOD_MS prj_conf = 1000"
    by (simp add: SUPERVISOR_PERIOD_MS_def prj_conf_def kconfig_defaults_def)
  then show ?thesis
    using degraded_iteration_never_feeds
      [OF sim_stale_degraded(1) after_retune_not_due [OF sim_stale_degraded(2)], of 2]
    by (auto simp: reason_bits)
qed

text \<open>
  Claim C12. Three strikes: while the clock runs, three consecutive iterations in degraded states all
  come to their end, with a retune due in any of them or not and whatever the other threads do in
  between (the three states are arbitrary), and at least one of them posts the recovery event, from
  any failure count below the limit (all that a reachable state can have, claim C5).
\<close>

theorem three_strikes_request_recovery:
  assumes "clock_runs z up" "unat fc < 3" "degraded z cfg s1" "degraded z cfg s2" "degraded z cfg s3"
  shows "\<exists>fc1 t1 fc2 t2 fc3 t3. supervisor_thread_iteration z cfg fc s1 = Some (fc1, t1) \<and>
     supervisor_thread_iteration z cfg fc1 s2 = Some (fc2, t2) \<and>
     supervisor_thread_iteration z cfg fc2 s3 = Some (fc3, t3) \<and>
     (requests_recovery z cfg s1 t1 \<or> requests_recovery z cfg s2 t2 \<or> requests_recovery z cfg s3 t3)"
proof -
  define counted :: "u32 \<Rightarrow> u32" where "counted n = (if 3 \<le> n + 1 then 0 else n + 1)" for n
  have count: "3 \<le> fc + 1 \<or> 3 \<le> counted fc + 1 \<or> 3 \<le> counted (counted fc) + 1"
  proof -
    have "unat fc = 0 \<or> unat fc = 1 \<or> unat fc = 2"
      using assms(2) by linarith
    then show ?thesis
      by (auto simp: counted_def word_le_nat_alt word_unat_eq_iff unat_word_ariths)
  qed
  note strike = strike [OF assms(1), of cfg, folded counted_def]
  show ?thesis
    using count strike [OF assms(3), of fc] strike [OF assms(4), of "counted fc"]
      strike [OF assms(5), of "counted (counted fc)"] by blast
qed

theorem three_strikes_request_recovery_witness:
  "\<exists>fc1 t1 fc2 t2 fc3 t3. supervisor_thread_iteration sim_board prj_conf 0 sim_stale = Some (fc1, t1) \<and>
     supervisor_thread_iteration sim_board prj_conf fc1 sim_stale_due = Some (fc2, t2) \<and>
     supervisor_thread_iteration sim_board prj_conf fc2 sim_stale = Some (fc3, t3) \<and>
     (requests_recovery sim_board prj_conf sim_stale t1 \<or> requests_recovery sim_board prj_conf sim_stale_due t2 \<or>
      requests_recovery sim_board prj_conf sim_stale t3)"
  using three_strikes_request_recovery [OF sim_clock_runs _ sim_stale_degraded(1,3,1), of 0] by simp

text \<open>
  Claim C28. A watchdog target the prescaler cannot express (28340 to 60000 ms is accepted by the
  UART, but needs more than \<open>2^20\<close> ticks) is retried for ever. Given to \<open>supervisor_start\<close> or requested
  later, as the \<open>wdg\<close> command does, it stays pending in all that follows, short of a new target
  request: every attempt that is due is refused, logged and deferred by one period, the retune is
  never settled, and the persistent count of watchdog resets is never cleared, however stable the
  system runs. What may follow is any sequence of iterations, heartbeats, feed switches, override
  changes and hardware activity. (The board has the STM32 watchdog, the record is loaded, and the
  target is not the timeout in force already.)
\<close>

theorem unreachable_target_never_settles:
  assumes "DT_ST_STM32_IWDG cfg" "fst (stm32_iwdg_compute cfg d) = - EINVAL" "watchdog_ctrl_get_timeout s \<noteq> d" "g_loaded s"
    and "s0 = supervisor_start z cfg d delay mon s \<or> s0 = snd (supervisor_request_watchdog_target z d b s)"
    and "(sup_step z cfg None)\<^sup>*\<^sup>* (fc, s0) (fc', s')"
  shows "supervisor_get_watchdog_target s' = d \<and> retune_pending (wd_cfg s') \<and> \<not> retune_done_once (wd_cfg s') \<and>
     \<not> watchdog_counter_cleared s' \<and>
     persist_state_get_consecutive_watchdog s' = persist_state_get_consecutive_watchdog s \<and>
     (retune_due z s' \<longrightarrow> (\<exists>u rc. after_retune z cfg s' = Some u \<and> rc \<noteq> 0 \<and>
        trace u = trace s' @ [LOG_EVT L_WRN ''WATCHDOG'' ''RETUNE_DEFERRED'' [LNum rc]] \<and> retune_pending (wd_cfg u) \<and>
        retune_ready_ts (wd_cfg u) = fst (k_uptime_get z (hw s')) + int (SUPERVISOR_PERIOD_MS cfg)))"
proof -
  have "stuck_at d (consecutive_watchdog (g_blob s)) (snd (fc', s'))"
    using assms(6)
  proof (induction rule: rtranclp_induct)
    case base
    show ?case
      using assms(3,4,5) start_stuck request_stuck by (auto simp: watchdog_ctrl_get_timeout_def)
  next
    case (step c c')
    then show ?case
      using step_stuck [OF assms(1,2), of z "fst c" "snd c" "fst c'" "snd c'"] by simp
  qed
  then have stuck: "stuck_at d (consecutive_watchdog (g_blob s)) s'"
    by simp
  with stuck_deferred [OF assms(1,2) stuck, of z] show ?thesis
    by (auto simp: stuck_at_def supervisor_get_watchdog_target_def persist_state_get_consecutive_watchdog_def)
qed

theorem unreachable_target_never_settles_witness:
  "retune_pending (wd_cfg (supervisor_start sim_board prj_conf 30000 500 True sim_supervisor\<lparr>hw := sim_boot\<rparr>)) \<and>
   retune_pending (wd_cfg (snd (supervisor_request_watchdog_target sim_board 30000 True sim_supervisor)\<lparr>hw := sim_boot\<rparr>))"
proof -
  have cfg: "DT_ST_STM32_IWDG prj_conf" "fst (stm32_iwdg_compute prj_conf 30000) = - EINVAL"
    using compute_spec [of prj_conf 30000] by (simp_all add: prj_conf_def kconfig_defaults_def iwdg_ticks_def case_prod_beta)
  have s: "watchdog_ctrl_get_timeout sim_supervisor \<noteq> 30000" "g_loaded sim_supervisor"
    using sim_started_synced(1)
    by (simp_all add: sim_supervisor_def sim_recovery_def sim_watchdog_def watchdog_ctrl_get_timeout_def synced_def
        recovery.defs watchdog.defs persist.defs)
  note stuck = unreachable_target_never_settles
    [OF cfg s _ r_into_rtranclp [of "sup_step sim_board prj_conf None"], OF _ sup_step.hardware]
  show ?thesis
    using stuck [OF disjI1 [OF refl]] stuck [OF disjI2 [OF refl]] by blast
qed





end
