(* ===== verification/Uart_Commands.thy ===== *)
theory Uart_Commands
  imports Supervisor
begin

text \<open>
  \<open>src/uart_commands.c\<close>: the console. Characters are collected into a line of bounded length, a line
  is parsed into a watchdog or a provisioning command, and the command calls the persistence layer
  and the supervisor. A C string is the list of its characters before the NUL, a pointer into it the
  remaining list, and the provisioning accumulator the characters it holds (its length is
  \<open>prov_accum_len\<close>). The free-text log lines, the hex dump and the preview buffer are left out.
\<close>

section \<open>State\<close>

record 'h uart = "'h supervisor" +
  cmd_safe_mode_active :: bool
  prov_accum :: string

definition CMD_BUFFER_LEN :: "app_config \<Rightarrow> nat" where
  "CMD_BUFFER_LEN cfg =
     (if APP_PROVISION_BUILD cfg then APP_PROVISION_CMD_BUFFER cfg
      else if APP_CRYPTO_BACKEND_CURVE25519 cfg then 16 + CURVE25519_KEY_SIZE * 4
      else 48)"

text \<open>\<open>"yes"\<close> or \<open>"no"\<close>.\<close>

definition yes_no :: "bool \<Rightarrow> string" where
  "yes_no b = (if b then ''yes'' else ''no'')"

section \<open>The C library on strings\<close>

definition skip_spaces :: "string \<Rightarrow> string" where
  "skip_spaces s = dropWhile c_isspace s"

definition token :: "string \<Rightarrow> string" where
  \<comment> \<open>the characters up to the next white space, whose number the loops count\<close>
  "token s = takeWhile (\<lambda>c. \<not> c_isspace c) s"

definition c_isdigit :: "char \<Rightarrow> bool" where
  "c_isdigit c \<longleftrightarrow> (let n = (of_char c :: nat) in 48 \<le> n \<and> n \<le> 57)"

definition digits_value :: "string \<Rightarrow> nat" where
  "digits_value ds = fold (\<lambda>c n. 10 * n + (of_char c - 48)) ds 0"

text \<open>
  \<open>strtoul(s, &end, 10)\<close> with a 32-bit \<open>unsigned long\<close>: the value, \<open>end\<close>, and whether \<open>errno\<close> was set. A
  number out of range is \<open>ULONG_MAX\<close> with \<open>ERANGE\<close>, and a minus sign negates in the unsigned type.
\<close>

definition c_strtoul :: "string \<Rightarrow> u32 \<times> string \<times> bool" where
  "c_strtoul s =
     (let t = dropWhile c_isspace s;
          neg = (t \<noteq> [] \<and> hd t = CHR ''-'');
          t = (if t \<noteq> [] \<and> (hd t = CHR ''-'' \<or> hd t = CHR ''+'') then tl t else t);
          ds = takeWhile c_isdigit t;
          rest = dropWhile c_isdigit t;
          n = digits_value ds
      in if ds = [] then (0, s, False)
         else if 2 ^ 32 \<le> n then (- 1, rest, True)
         else (if neg then - of_nat n else of_nat n, rest, False))"

section \<open>The accumulator\<close>

definition prov_accum_reset :: "('h, 'z) uart_scheme \<Rightarrow> ('h, 'z) uart_scheme" where
  "prov_accum_reset s = s\<lparr>prov_accum := []\<rparr>"

definition prov_accum_abort :: "('h, 'z) uart_scheme \<Rightarrow> ('h, 'z) uart_scheme" where
  "prov_accum_abort s =
     (if 0 < length (prov_accum s)
      then prov_accum_reset (emit (LOG_EVT L_WRN ''PROVISION'' ''INCOMPLETE_CHUNK''
             [LNum (int (length (prov_accum s))), LStr (take 16 (prov_accum s))]) s)
      else s)"

definition prov_accum_append :: "app_config \<Rightarrow> string \<Rightarrow> ('h, 'z) uart_scheme \<Rightarrow> ('h, 'z) uart_scheme" where
  "prov_accum_append cfg chunk s =
     (if CMD_BUFFER_LEN cfg - 1 \<le> length (prov_accum s)
      then prov_accum_reset (emit (LOG_EVT L_WRN ''PROVISION'' ''BUFFER_OVERFLOW'' [LNum (int (length (prov_accum s)))]) s)
      else let acc = (if length (prov_accum s) \<noteq> 0 then prov_accum s @ '' '' else prov_accum s);
               room = CMD_BUFFER_LEN cfg - 1 - length acc;
               s = s\<lparr>prov_accum := acc @ take room chunk\<rparr>
           in if drop room chunk \<noteq> [] then emit (LOG_EVT L_WRN ''PROVISION'' ''BUFFER_TRUNCATED'' []) s else s)"

definition prov_command_complete :: "string \<Rightarrow> bool" where
  "prov_command_complete line =
     (let cursor = skip_spaces line
      in if \<not> c_prefix ''prov'' cursor then True
         else let cursor = skip_spaces (drop 4 cursor)
         in if \<not> c_prefix ''curve'' cursor then True
         else let cursor = skip_spaces (drop 5 cursor);
                  scalar_len = length (token cursor)
         in if scalar_len < CURVE25519_KEY_SIZE * 2 then False
         else let cursor = skip_spaces (drop scalar_len cursor)
         in if cursor = [] then True
         else \<not> length (token cursor) < CURVE25519_KEY_SIZE * 2)"

section \<open>Watchdog commands\<close>

definition print_status :: "app_config \<Rightarrow> ('h, 'z) uart_scheme \<Rightarrow> ('h, 'z) uart_scheme" where
  "print_status cfg s =
     (let boot_timeout = APP_WATCHDOG_BOOT_TIMEOUT_MS cfg;
          steady_target = supervisor_get_watchdog_target s;
          current_hw = watchdog_ctrl_get_timeout s;
          override_ms = persist_state_get_watchdog_override s;
          consecutive = persist_state_get_consecutive_watchdog s;
          s = emit (LOG_EVT L_INF ''TELEMETRY'' ''WATCHDOG_STATUS''
                [LU boot_timeout, LU current_hw, LU steady_target, LU override_ms,
                 LStr (yes_no (cmd_safe_mode_active s))]) s
      in if consecutive \<noteq> 0
         then emit (LOG_EVT L_INF ''TELEMETRY'' ''WATCHDOG_RESETS'' [LU consecutive]) s else s)"

definition apply_timeout ::
    "'h zephyr \<Rightarrow> app_config \<Rightarrow> u32 \<Rightarrow> ('h, 'z) uart_scheme \<Rightarrow> ('h, 'z) uart_scheme" where
  "apply_timeout z cfg timeout_ms s =
     (if timeout_ms < 100 \<or> 60000 < timeout_ms then s
      else let (rc, s) = persist_state_set_watchdog_override z cfg timeout_ms s
      in if rc < 0 then s
         else let (_, s) = supervisor_request_watchdog_target z timeout_ms True s
              in emit (LOG_EVT L_INF ''WATCHDOG'' ''OVERRIDE_SET'' [LU timeout_ms]) s)"

definition clear_override :: "'h zephyr \<Rightarrow> app_config \<Rightarrow> ('h, 'z) uart_scheme \<Rightarrow> ('h, 'z) uart_scheme" where
  "clear_override z cfg s =
     (let (rc, s) = persist_state_set_watchdog_override z cfg 0 s
      in if rc < 0 then s
         else let (_, s) = supervisor_request_watchdog_target z (APP_WATCHDOG_STEADY_TIMEOUT_MS cfg) True s
              in emit (LOG_EVT L_INF ''WATCHDOG'' ''OVERRIDE_CLEARED'' [LU (APP_WATCHDOG_STEADY_TIMEOUT_MS cfg)]) s)"

section \<open>Provisioning\<close>

definition hex_value_cli :: "char \<Rightarrow> int" where
  "hex_value_cli c = (let n = (of_char c :: int) in
     if 48 \<le> n \<and> n \<le> 57 then n - 48
     else if 97 \<le> n \<and> n \<le> 102 then 10 + (n - 97)
     else if 65 \<le> n \<and> n \<le> 70 then 10 + (n - 65)
     else -1)"

text \<open>The token is the string from \<open>token\<close> on, of which \<open>len\<close> characters are meant.\<close>

definition decode_hex_token :: "string option \<Rightarrow> nat \<Rightarrow> nat \<Rightarrow> rc \<times> u8 list" where
  "decode_hex_token tok len out_len =
     (case tok of
        None \<Rightarrow> (- EINVAL, [])
      | Some t \<Rightarrow>
          if len \<noteq> out_len * 2 then (- EINVAL, [])
          else let (out, ok) = hex_decode_loop hex_value_cli (take (out_len * 2) t)
               in if ok then (0, out) else (- EINVAL, out))"

definition handle_provision_command ::
    "'h zephyr \<Rightarrow> app_config \<Rightarrow> string \<Rightarrow> ('h, 'z) uart_scheme \<Rightarrow> ('h, 'z) uart_scheme" where
  "handle_provision_command z cfg args s =
     (let args = skip_spaces args
      in if \<not> c_prefix ''curve'' args
         then emit (LOG_EVT L_WRN ''PROVISION'' ''UNKNOWN_TARGET'' [LStr args]) s
         else
      let args = skip_spaces (drop 5 args)
      in if args = [] then emit (LOG_EVT L_WRN ''PROVISION'' ''MISSING_SCALAR'' []) s
         else
      let scalar_tok = args;
          scalar_len = length (token args);
          args = skip_spaces (drop scalar_len args);
          peer_tok = (if args \<noteq> [] then Some args else None);
          peer_len = (if args \<noteq> [] then length (token args) else 0);
          s = emit (LOG_EVT L_INF ''PROVISION'' ''CURVE_CMD_RX''
                [LNum (int scalar_len), LNum (int peer_len),
                 LStr (take (scalar_len + (if peer_tok \<noteq> None then peer_len + 1 else 0)) scalar_tok)]) s;
          (rc, buffer) = decode_hex_token (Some scalar_tok) scalar_len CURVE25519_KEY_SIZE
      in if rc \<noteq> 0 then emit (LOG_EVT L_WRN ''PROVISION'' ''SCALAR_PARSE_FAIL'' [LNum (int scalar_len)]) s
         else
      let (rc, s) = persist_state_curve25519_set_secret z cfg (Some buffer) s
      in if rc \<noteq> 0 then s
         else
      let (rc, s) =
        (if peer_tok \<noteq> None then
           (if peer_len \<noteq> CURVE25519_KEY_SIZE * 2
            then (- EINVAL, emit (LOG_EVT L_WRN ''PROVISION'' ''PEER_LEN_BAD'' [LNum (int peer_len)]) s)
            else let (rc, buffer) = decode_hex_token peer_tok peer_len CURVE25519_KEY_SIZE
                 in if rc \<noteq> 0 then (rc, emit (LOG_EVT L_WRN ''PROVISION'' ''PEER_PARSE_FAIL'' []) s)
                    else persist_state_curve25519_set_peer z cfg (Some buffer) s)
         else (0, s))
      in if rc \<noteq> 0 then s
         else emit (LOG_EVT L_INF ''PROVISION'' ''CURVE25519_UPDATED'' [LStr (yes_no (peer_tok \<noteq> None))]) s)"

section \<open>Lines\<close>

definition handle_watchdog_command ::
    "'h zephyr \<Rightarrow> app_config \<Rightarrow> string \<Rightarrow> ('h, 'z) uart_scheme \<Rightarrow> ('h, 'z) uart_scheme" where
  "handle_watchdog_command z cfg line s =
     (let line = dropWhile c_isspace line
      in if c_prefix ''?'' line then print_status cfg s
         else if c_prefix ''clear'' line then clear_override z cfg s
         else let (val, end_ptr, err) = c_strtoul line
         in if err \<or> end_ptr = line then emit (LOG_EVT L_WRN ''UART_CMD'' ''PARSE_FAIL'' [LStr line]) s
            else if end_ptr \<noteq> [] \<and> \<not> c_isspace (hd end_ptr)
            then emit (LOG_EVT L_WRN ''UART_CMD'' ''GARBAGE_TRAILING'' [LStr end_ptr]) s
            else apply_timeout z cfg val s)"

definition run_accumulated ::
    "'h zephyr \<Rightarrow> app_config \<Rightarrow> string \<Rightarrow> ('h, 'z) uart_scheme \<Rightarrow> ('h, 'z) uart_scheme" where
  "run_accumulated z cfg line s =
     (let s = prov_accum_append cfg line s
      in if prov_command_complete (prov_accum s)
         then prov_accum_reset (handle_provision_command z cfg (drop 4 (prov_accum s)) s)
         else s)"

definition handle_line :: "'h zephyr \<Rightarrow> app_config \<Rightarrow> string \<Rightarrow> ('h, 'z) uart_scheme \<Rightarrow> ('h, 'z) uart_scheme" where
  "handle_line z cfg line s =
     (let line = dropWhile c_isspace line
      in if line = [] then s
         else
      let curve = APP_CRYPTO_BACKEND_CURVE25519 cfg;
          s = (if curve \<and> 0 < length (prov_accum s) \<and> \<not> c_prefix ''prov'' line then prov_accum_abort s else s)
      in if c_prefix ''wdg'' line then handle_watchdog_command z cfg (drop 3 line) s
         else if curve \<and> c_prefix ''prov'' line then run_accumulated z cfg line (prov_accum_reset s)
         else if curve \<and> 0 < length (prov_accum s) then run_accumulated z cfg line s
         else emit (LOG_EVT L_WRN ''UART_CMD'' ''UNKNOWN'' [LStr line]) s)"

section \<open>The thread\<close>

text \<open>The characters of the line before the first NUL, which is where the C string ends.\<close>

definition c_string :: "string \<Rightarrow> string" where
  "c_string buf = takeWhile (\<lambda>c. c \<noteq> CHR 0x00) buf"

text \<open>One iteration of the loop; \<open>buffer\<close> holds the \<open>len\<close> characters received so far.\<close>

definition command_thread_iteration ::
    "'h zephyr \<Rightarrow> app_config \<Rightarrow> string \<Rightarrow> ('h, 'z) uart_scheme \<Rightarrow> string \<times> ('h, 'z) uart_scheme" where
  "command_thread_iteration z cfg buffer s =
     (let (rc, byte, h) = uart_poll_in z (hw s);
          s = s\<lparr>hw := h\<rparr>;
          ch = (char_of (unat byte) :: char)
      in if rc \<noteq> 0 then (buffer, msleep z 20 s)
         else if ch = CHR 0x0D \<or> ch = CHR 0x0A then
           (if 0 < length buffer then ([], handle_line z cfg (c_string buffer) s) else (buffer, s))
         else if length buffer < CMD_BUFFER_LEN cfg - 1 then (buffer @ [ch], s)
         else (buffer, s))"

definition command_thread_start :: "('h, 'z) uart_scheme \<Rightarrow> string \<times> ('h, 'z) uart_scheme" where
  "command_thread_start s =
     ([], emit (LOG_EVT L_INF ''UART_CMD'' ''READY'' [LStr (yes_no (cmd_safe_mode_active s))]) s)"

definition uart_commands_start ::
    "'h zephyr \<Rightarrow> app_config \<Rightarrow> bool \<Rightarrow> ('h, 'z) uart_scheme \<Rightarrow> ('h, 'z) uart_scheme" where
  "uart_commands_start z cfg safe_mode_active s =
     (if APP_ENABLE_UART_COMMANDS cfg then
        (let s = s\<lparr>cmd_safe_mode_active := safe_mode_active\<rparr>
         in if \<not> device_is_ready z Console_Dev (hw s) then s
            else emit (Thread_Start ''uart_cmd'') s)
      else s)"

interpretation cli_hex: hex_digits hex_value_cli
  by (rule hex_digits_by_ranges) (simp add: hex_value_cli_def)

section \<open>Decimal numbers\<close>

fun decimal :: "nat \<Rightarrow> string" where
  "decimal n = (if n < 10 then [char_of (48 + n)] else decimal (n div 10) @ [char_of (48 + n mod 10)])"

declare decimal.simps [simp del]

lemma digit_char: "d < 10 \<Longrightarrow> c_isdigit (char_of (48 + d)) \<and> of_char (char_of (48 + d) :: char) = 48 + (d :: nat)"
  by (simp add: c_isdigit_def Let_def)

lemma decimal_digits: "c \<in> set (decimal n) \<Longrightarrow> c_isdigit c"
proof (induction n rule: decimal.induct)
  case (1 n)
  then show ?case
    by (subst (asm) (2) decimal.simps) (auto simp: digit_char split: if_splits)
qed

lemma decimal_not_empty [simp]: "decimal n \<noteq> []"
  by (subst decimal.simps) simp

lemma digits_value_snoc: "digits_value (ds @ [c]) = 10 * digits_value ds + (of_char c - 48)"
  by (simp add: digits_value_def)

lemma digits_value_decimal [simp]: "digits_value (decimal n) = n"
proof (induction n rule: decimal.induct)
  case (1 n)
  show ?case
  proof (cases "n < 10")
    case True
    then show ?thesis
      using digits_value_snoc [of "[]"] digit_char [of n] by (subst decimal.simps) (simp add: digits_value_def)
  next
    case False
    then show ?thesis
      using 1 digit_char [of "n mod 10"] by (subst decimal.simps) (simp add: digits_value_snoc)
  qed
qed

lemma digit_not_space: "c_isdigit c \<Longrightarrow> \<not> c_isspace c \<and> c \<noteq> CHR ''-'' \<and> c \<noteq> CHR ''+'' \<and> c \<noteq> CHR ''?'' \<and> c \<noteq> CHR ''c''"
  by (auto simp: c_isdigit_def c_isspace_def Let_def)

lemma decimal_first: "c_isdigit (hd (decimal n))"
  using decimal_digits [OF hd_in_set [OF decimal_not_empty]] .

lemma strtoul_decimal:
  assumes "n < 2 ^ 32"
  shows "c_strtoul (decimal n) = (of_nat n, [], False)"
proof -
  have "dropWhile c_isspace (decimal n) = decimal n"
    using decimal_first [of n] digit_not_space by (cases "decimal n") auto
  moreover have tw: "takeWhile c_isdigit (decimal n) = decimal n" "dropWhile c_isdigit (decimal n) = []"
    using decimal_digits by (auto intro: takeWhile_eq_all_conv [THEN iffD2])
  ultimately show ?thesis
    using assms decimal_first [of n] digit_not_space [of "hd (decimal n)"]
    unfolding c_strtoul_def Let_def by (simp add: tw)
qed

section \<open>Frame lemmas\<close>

lemma uart_fields:
  fixes s t :: "('h, 'z) uart_scheme"
  assumes "persist.more s = persist.more t"
  shows "prov_accum s = prov_accum t" "cmd_safe_mode_active s = cmd_safe_mode_active t"
  using assms by (cases s; cases t; simp)+

lemmas uart_persist_fields [simp] =
  uart_fields [OF persist_ops_more(4)] uart_fields [OF persist_ops_more(7)] uart_fields [OF persist_ops_more(9)]

lemma emit_uart [simp]:
  "prov_accum (emit e s) = prov_accum s" "prov_accum (msleep z n s) = prov_accum s"
  "cmd_safe_mode_active (emit e s) = cmd_safe_mode_active s"
  by (simp_all add: emit_def msleep_def)

lemma request_target_frame [simp]:
  fixes s :: "('h, 'z) uart_scheme"
  shows "prov_accum (snd (supervisor_request_watchdog_target z t b s)) = prov_accum s"
    "g_blob (snd (supervisor_request_watchdog_target z t b s)) = g_blob s"
    "g_loaded (snd (supervisor_request_watchdog_target z t b s)) = g_loaded s"
    "hw (snd (supervisor_request_watchdog_target z t b s)) = snd (k_uptime_get z (hw s))"
  by (simp_all add: supervisor_request_watchdog_target_def update_retune_schedule_locked_def case_prod_beta Let_def)

lemma commit_writable: "nvs_writable z \<Longrightarrow> fst (persist_commit_locked z cfg s) = 0"
  using store_writable [of z cfg "g_blob s" s] by (simp add: persist_commit_locked_def case_prod_beta Let_def)

lemma override_writable:
  fixes s :: "('h, 'z) persist_scheme"
  assumes "nvs_writable z" "g_loaded s"
  shows "fst (persist_state_set_watchdog_override z cfg t s) = 0"
    "watchdog_override_ms (g_blob (snd (persist_state_set_watchdog_override z cfg t s))) = t"
    "g_loaded (snd (persist_state_set_watchdog_override z cfg t s))"
  using assms by (simp_all add: persist_state_set_watchdog_override_def commit_writable commit_same Let_def)

lemma override_other_records:
  fixes s :: "('h, 'z) persist_scheme"
  assumes "nvs_contract z view" "nvs_writable z" "g_loaded s" "i \<noteq> PERSIST_RECORD_ID"
  shows "view (hw (snd (persist_state_set_watchdog_override z cfg t s))) i = view (hw s) i"
  using assms(3,4) commit_sound(3) [OF assms(1) store_writable [OF assms(2)], of i cfg
      "s\<lparr>g_blob := (g_blob s)\<lparr>watchdog_override_ms := t\<rparr>\<rparr>"]
  by (simp add: persist_state_set_watchdog_override_def Let_def)

section \<open>Hexadecimal tokens\<close>

lemma hex_encode_set:
  assumes "length d = 16"
  shows "set (hex_encode d bs) \<subseteq> set d"
proof (induction bs)
  case (Cons b bs)
  then show ?case
    using assms cli_hex.nibble_less [of b] cli_hex.nibble_less [of "drop_bit 4 b"] by auto
qed simp

lemma hex_chars_not_space: "length hex_chars = 16" "\<forall>c \<in> set hex_chars. \<not> c_isspace c"
  by (simp_all add: hex_chars_def c_isspace_def)

lemma hex_not_space: "c \<in> set (hex_encode hex_chars bs) \<Longrightarrow> \<not> c_isspace c"
  using hex_encode_set [OF hex_chars_not_space(1), of bs] hex_chars_not_space(2) by blast

lemma token_hex [simp]:
  "token (hex_encode hex_chars bs) = hex_encode hex_chars bs"
  "token (hex_encode hex_chars bs @ CHR '' '' # r) = hex_encode hex_chars bs"
  using hex_not_space [of _ bs] by (auto simp: token_def c_isspace_def takeWhile_append)

lemma skip_spaces_hex [simp]: "skip_spaces (hex_encode hex_chars bs @ r) = (if bs = [] then skip_spaces r else hex_encode hex_chars bs @ r)"
  using hex_not_space [of "hd (hex_encode hex_chars bs)" bs] by (cases bs) (auto simp: skip_spaces_def Let_def)

lemma decode_token_hex [simp]:
  "length bs = n \<Longrightarrow> decode_hex_token (Some (hex_encode hex_chars bs @ r)) (2 * n) n = (0, bs)"
  by (simp add: decode_hex_token_def cli_hex.decode_encode)

section \<open>Bounds of the buffers\<close>

lemma append_bounded:
  assumes "2 \<le> CMD_BUFFER_LEN cfg" "length (prov_accum s) < CMD_BUFFER_LEN cfg"
  shows "length (prov_accum (prov_accum_append cfg line s)) < CMD_BUFFER_LEN cfg"
  using assms by (auto simp: prov_accum_append_def prov_accum_reset_def Let_def)

lemma reset_accum [simp]: "prov_accum (prov_accum_reset s) = []"
  by (simp add: prov_accum_reset_def)

lemma provision_accum [simp]: "prov_accum (handle_provision_command z cfg args s) = prov_accum s"
  by (simp add: handle_provision_command_def case_prod_beta Let_def)

lemma watchdog_accum [simp]: "prov_accum (handle_watchdog_command z cfg line s) = prov_accum s"
  by (simp add: handle_watchdog_command_def print_status_def clear_override_def apply_timeout_def case_prod_beta Let_def)

lemma run_accumulated_bounded:
  assumes "2 \<le> CMD_BUFFER_LEN cfg" "length (prov_accum s) < CMD_BUFFER_LEN cfg"
  shows "length (prov_accum (run_accumulated z cfg line s)) < CMD_BUFFER_LEN cfg"
  using append_bounded [OF assms, of line] assms(1) by (simp add: run_accumulated_def Let_def)

lemma abort_accum: "prov_accum (prov_accum_abort s) = []"
  by (simp add: prov_accum_abort_def)

lemma handle_line_bounded:
  assumes "2 \<le> CMD_BUFFER_LEN cfg" "length (prov_accum s) < CMD_BUFFER_LEN cfg"
  shows "length (prov_accum (handle_line z cfg line s)) < CMD_BUFFER_LEN cfg"
  using assms by (simp add: handle_line_def run_accumulated_bounded abort_accum Let_def)

lemma iteration_bounded:
  assumes "2 \<le> CMD_BUFFER_LEN cfg" "length buffer < CMD_BUFFER_LEN cfg" "length (prov_accum s) < CMD_BUFFER_LEN cfg"
  shows "length (fst (command_thread_iteration z cfg buffer s)) < CMD_BUFFER_LEN cfg \<and>
     length (prov_accum (snd (command_thread_iteration z cfg buffer s))) < CMD_BUFFER_LEN cfg"
  using assms by (auto simp: command_thread_iteration_def handle_line_bounded case_prod_beta Let_def)

section \<open>Commands as the user types them\<close>

lemma wdg_line:
  assumes "n < 2 ^ 32" "prov_accum s = []"
  shows "handle_line z cfg (''wdg '' @ decimal n) s = apply_timeout z cfg (of_nat n) s"
proof -
  obtain c cs where d: "decimal n = c # cs"
    by (cases "decimal n") simp_all
  have c: "\<not> c_isspace c" "c \<noteq> CHR ''?''" "c \<noteq> CHR ''c''"
    using decimal_first [of n] digit_not_space [of c] by (simp_all add: d)
  have space: "c_isspace CHR '' ''" "\<not> c_isspace CHR ''w''"
    by (simp_all add: c_isspace_def)
  have "handle_watchdog_command z cfg ('' '' @ decimal n) s = apply_timeout z cfg (of_nat n) s"
    using c space strtoul_decimal [OF assms(1)] by (simp add: handle_watchdog_command_def c_prefix_def d)
  then show ?thesis
    using assms(2) space by (simp add: handle_line_def c_prefix_def Let_def)
qed

text \<open>The arguments of a complete provisioning command.\<close>

abbreviation (input) key_args :: "u8 list \<Rightarrow> u8 list \<Rightarrow> string" where
  "key_args sec peer \<equiv> hex_encode hex_chars sec @ CHR '' '' # hex_encode hex_chars peer"

lemma space_chars [simp]:
  "c_isspace CHR '' ''" "\<not> c_isspace CHR ''w''" "\<not> c_isspace CHR ''p''" "\<not> c_isspace CHR ''c''"
  by (simp_all add: c_isspace_def)

lemma skip_spaces_simps [simp]:
  "skip_spaces [] = []" "skip_spaces (CHR '' '' # s) = skip_spaces s" "\<not> c_isspace c \<Longrightarrow> skip_spaces (c # s) = c # s"
  by (simp_all add: skip_spaces_def)

lemma skip_key_args [simp]:
  assumes "length sec = 32" "length peer = 32"
  shows "skip_spaces (key_args sec peer) = key_args sec peer" "skip_spaces (hex_encode hex_chars peer) = hex_encode hex_chars peer"
proof -
  have "sec \<noteq> []" "peer \<noteq> []"
    using assms by auto
  then show "skip_spaces (key_args sec peer) = key_args sec peer"
    "skip_spaces (hex_encode hex_chars peer) = hex_encode hex_chars peer"
    using skip_spaces_hex [of peer "[]"] by simp_all
qed

lemma prov_line:
  assumes cfg: "APP_CRYPTO_BACKEND_CURVE25519 cfg" "141 \<le> CMD_BUFFER_LEN cfg"
    and len: "length sec = 32" "length peer = 32" and s: "prov_accum s = []"
  shows "handle_line z cfg (''prov curve '' @ hex_encode hex_chars sec @ CHR '' '' # hex_encode hex_chars peer) s =
     prov_accum_reset (handle_provision_command z cfg
       ('' curve '' @ hex_encode hex_chars sec @ CHR '' '' # hex_encode hex_chars peer)
       (s\<lparr>prov_accum := ''prov curve '' @ hex_encode hex_chars sec @ CHR '' '' # hex_encode hex_chars peer\<rparr>))"
proof -
  let ?line = "''prov curve '' @ key_args sec peer"
  have "length ?line = 140"
    using len by simp
  then have room: "take (CMD_BUFFER_LEN cfg - 1) ?line = ?line" "drop (CMD_BUFFER_LEN cfg - 1) ?line = []"
    using cfg(2) by simp_all
  have append: "prov_accum_append cfg ?line (prov_accum_reset s) = s\<lparr>prov_accum := ?line\<rparr>"
    using cfg(2) by (simp only: prov_accum_append_def Let_def prov_accum_reset_def) (simp add: room [simplified])
  have complete: "prov_command_complete ?line"
    using len by (simp add: prov_command_complete_def c_prefix_def CURVE25519_KEY_SIZE_def Let_def)
  have "handle_line z cfg ?line s = run_accumulated z cfg ?line (prov_accum_reset s)"
    using cfg(1) s by (simp add: handle_line_def c_prefix_def Let_def)
  then show ?thesis
    using complete by (simp add: run_accumulated_def append [simplified] Let_def)
qed

lemma provision_key_args:
  assumes "length sec = 32" "length peer = 32"
    and "persist_state_curve25519_set_secret z cfg (Some sec)
      (emit (LOG_EVT L_INF ''PROVISION'' ''CURVE_CMD_RX'' [LNum 64, LNum 64, LStr (key_args sec peer)]) s) = (0, t)"
    and "persist_state_curve25519_set_peer z cfg (Some peer) t = (0, u)"
  shows "handle_provision_command z cfg ('' curve '' @ key_args sec peer) s =
     emit (LOG_EVT L_INF ''PROVISION'' ''CURVE25519_UPDATED'' [LStr ''yes'']) u"
proof -
  have "hex_encode hex_chars peer \<noteq> []" "sec \<noteq> []"
    using assms(1,2) by (cases peer; auto)+
  moreover have "decode_hex_token (Some (key_args sec peer)) 64 32 = (0, sec)"
    "decode_hex_token (Some (hex_encode hex_chars peer)) 64 32 = (0, peer)"
    using decode_token_hex [OF assms(1)] decode_token_hex [OF assms(2), of "[]"] by simp_all
  ultimately show ?thesis
    using assms by (simp add: handle_provision_command_def c_prefix_def CURVE25519_KEY_SIZE_def yes_no_def Let_def)
qed

lemma watchdog_records:
  fixes s :: "('h, 'z) uart_scheme"
  assumes z: "nvs_contract z view" "nvs_writable z" "g_loaded s" "i \<noteq> PERSIST_RECORD_ID"
  shows "view (hw (handle_watchdog_command z cfg line s)) i = view (hw s) i"
  using override_other_records [OF z, of cfg] nvs_contract_quiet(1) [OF z(1)]
  by (simp add: handle_watchdog_command_def print_status_def clear_override_def apply_timeout_def case_prod_beta Let_def)

section \<open>Properties\<close>

text \<open>
  Claim C20. The watchdog command: for a decimal number \<open>n\<close> from 100 to 60000 the line \<open>wdg n\<close> stores
  \<open>n\<close> as the persistent override and makes it the supervisor's target, to be applied at once; any
  other number of up to 32 bits changes nothing at all.
\<close>

theorem wdg_command_sets_override:
  assumes "nvs_writable z" "g_loaded s" "prov_accum s = []" "n < 2 ^ 32"
  shows "(let s' = handle_line z cfg (''wdg '' @ decimal n) s
     in if 100 \<le> n \<and> n \<le> 60000
        then unat (persist_state_get_watchdog_override s') = n \<and> unat (supervisor_get_watchdog_target s') = n \<and>
          retune_ready_ts (wd_cfg s') = fst (k_uptime_get z (hw (snd (persist_state_set_watchdog_override z cfg (of_nat n) s)))) \<and>
          (retune_pending (wd_cfg s') \<longleftrightarrow> unat (watchdog_ctrl_get_timeout s') \<noteq> n)
        else s' = s)"
proof -
  have n: "unat (word_of_nat n :: u32) = n"
    using assms(4) by (simp add: unsigned_of_nat take_bit_nat_eq_self)
  let ?o = "persist_state_set_watchdog_override z cfg (word_of_nat n) s"
  let ?t = "supervisor_request_watchdog_target z (word_of_nat n) True (snd ?o)"
  note line = wdg_line [OF assms(4,3), of z cfg]
  show ?thesis
  proof (cases "100 \<le> n \<and> n \<le> 60000")
    case True
    then have "handle_line z cfg (''wdg '' @ decimal n) s = emit (LOG_EVT L_INF ''WATCHDOG'' ''OVERRIDE_SET'' [LU (word_of_nat n :: u32)]) (snd ?t)"
      unfolding line using override_writable(1) [OF assms(1,2), of cfg "word_of_nat n"]
      by (simp add: apply_timeout_def word_less_nat_alt n case_prod_beta Let_def)
    then show ?thesis
      using True n override_writable(2) [OF assms(1,2), of cfg "word_of_nat n"]
      by (auto simp: persist_state_get_watchdog_override_def supervisor_get_watchdog_target_def
          supervisor_request_watchdog_target_def update_retune_schedule_locked_def watchdog_ctrl_get_timeout_def
          case_prod_beta Let_def)
  next
    case False
    then have "handle_line z cfg (''wdg '' @ decimal n) s = s"
      unfolding line by (auto simp: apply_timeout_def word_less_nat_alt n)
    with False show ?thesis
      by auto
  qed
qed

definition sim_uart :: "(sim, unit) uart_scheme" where
  "sim_uart = supervisor.extend sim_supervisor \<lparr>cmd_safe_mode_active = False, prov_accum = []\<rparr>"

lemma sim_uart_ready: "g_loaded sim_uart" "prov_accum sim_uart = []"
  using sim_started_synced(1)
  by (simp_all add: sim_uart_def sim_supervisor_def sim_recovery_def sim_watchdog_def synced_def supervisor.defs
      recovery.defs watchdog.defs persist.defs)

lemma prj_uart: "APP_CRYPTO_BACKEND_CURVE25519 prj_conf" "CMD_BUFFER_LEN prj_conf = 144"
  by (simp_all add: CMD_BUFFER_LEN_def prj_conf_def kconfig_defaults_def CURVE25519_KEY_SIZE_def)

theorem wdg_command_sets_override_witness:
  "unat (persist_state_get_watchdog_override (handle_line sim_board prj_conf ''wdg 5000'' sim_uart)) = 5000"
proof -
  have "decimal 5000 = ''5000''"
    by (simp add: decimal.simps char_of_eq_iff)
  then show ?thesis
    using wdg_command_sets_override [OF sim_nvs_writable sim_uart_ready, of 5000 prj_conf] by (simp add: Let_def)
qed

text \<open>
  Claim C21. Provisioning over the console: the line \<open>prov curve SCALAR PEER\<close>, with the two keys in
  hexadecimal, leaves both in flash: reading them back gives the clamped scalar and the peer key.
\<close>

theorem prov_command_stores_keys:
  fixes s :: "('h, 'z) uart_scheme"
  assumes "nvs_contract z view" "nvs_writable z" "APP_CRYPTO_BACKEND_CURVE25519 cfg" "141 \<le> CMD_BUFFER_LEN cfg"
    and "length sec = 32" "length peer = 32" "prov_accum s = []" "g_loaded s"
    and "s' = handle_line z cfg (''prov curve '' @ hex_encode hex_chars sec @ '' '' @ hex_encode hex_chars peer) s"
  shows "persist_state_curve25519_get_secret z cfg s' = (0, Some (curve25519_ref10_clamp_scalar sec), s') \<and>
     persist_state_curve25519_get_peer z cfg s' = (0, Some peer, s')"
proof -
  let ?line = "''prov curve '' @ key_args sec peer"
  let ?s = "emit (LOG_EVT L_INF ''PROVISION'' ''CURVE_CMD_RX'' [LNum 64, LNum 64, LStr (key_args sec peer)])
    (s\<lparr>prov_accum := ?line\<rparr>)"
  let ?t = "persist_state_curve25519_set_secret z cfg (Some sec) ?s"
  let ?u = "persist_state_curve25519_set_peer z cfg (Some peer) (snd ?t)"
  have w: "0 \<le> fst (nvs_write z fs i d h)" "\<not> fst (nvs_write z fs i d h) < 0" for fs i d h
    using assms(2) by (simp_all add: nvs_writable_def not_less)
  have t: "fst ?t = 0" "g_loaded (snd ?t)"
    using assms(3,5,8) w by (simp_all add: persist_state_curve25519_set_secret_def case_prod_beta Let_def)
  have u: "fst ?u = 0" "g_loaded (snd ?u)"
    "view (hw (snd ?u)) PERSIST_CURVE_SECRET_ID = view (hw (snd ?t)) PERSIST_CURVE_SECRET_ID"
    using assms(3,6) t w
    by (simp_all add: persist_state_curve25519_set_peer_def nvs_contract_write [OF assms(1)] record_ids case_prod_beta Let_def)
  have s': "s' = prov_accum_reset (emit (LOG_EVT L_INF ''PROVISION'' ''CURVE25519_UPDATED'' [LStr ''yes'']) (snd ?u))"
    using provision_key_args [OF assms(5,6), of z cfg "s\<lparr>prov_accum := ?line\<rparr>" "snd ?t" "snd ?u"] t u
    by (simp add: assms(9) prov_line [OF assms(3-7), simplified] prod_eq_iff)
  have flash: "view (hw s') = view (hw (snd ?u))" "g_loaded s'"
    using u(2) by (simp_all add: s' prov_accum_reset_def)
  have "persist_state_curve25519_get_secret z cfg s' = (0, Some (curve25519_ref10_clamp_scalar sec), s')"
    by (rule secret_after_set [OF assms(1,3,5), of ?s "snd ?t"]) (use t u flash assms(8) in \<open>simp_all add: prod_eq_iff\<close>)
  moreover have "persist_state_curve25519_get_peer z cfg s' = (0, Some peer, s')"
    by (rule peer_after_set [OF assms(1,3,6), of "snd ?t" "snd ?u"]) (use t u flash in \<open>simp_all add: prod_eq_iff\<close>)
  ultimately show ?thesis ..
qed

theorem prov_command_stores_keys_witness:
  "\<exists>s' :: (sim, unit) uart_scheme. persist_state_curve25519_get_peer sim_board prj_conf s' = (0, Some (replicate 32 9), s')"
proof -
  have "141 \<le> CMD_BUFFER_LEN prj_conf"
    by (simp add: prj_uart)
  note stored = conjunct2 [OF prov_command_stores_keys [OF sim_nvs_contract sim_nvs_writable prj_uart(1) this
      length_replicate length_replicate sim_uart_ready(2,1) refl, of 7 9]]
  show ?thesis
    by (rule exI) (rule stored)
qed

text \<open>
  Claim C22. No input overruns a buffer: after any number of iterations of the thread, on any stream
  of characters, the line and the provisioning accumulator hold at most one character less than the
  buffer length, so that the terminating NUL always fits.
\<close>

theorem uart_buffers_bounded:
  assumes "2 \<le> CMD_BUFFER_LEN cfg" "length (prov_accum s) < CMD_BUFFER_LEN cfg"
  shows "case ((\<lambda>(buffer, s). command_thread_iteration z cfg buffer s) ^^ n) (command_thread_start s) of
     (buffer, s') \<Rightarrow> length buffer < CMD_BUFFER_LEN cfg \<and> length (prov_accum s') < CMD_BUFFER_LEN cfg"
proof (induction n)
  case 0
  then show ?case
    using assms by (simp add: command_thread_start_def)
next
  case (Suc n)
  obtain b u where r: "((\<lambda>(buffer, s). command_thread_iteration z cfg buffer s) ^^ n) (command_thread_start s) = (b, u)"
    by fastforce
  moreover obtain b' u' where "command_thread_iteration z cfg b u = (b', u')"
    by fastforce
  ultimately show ?case
    using Suc iteration_bounded [OF assms(1), of b u z] by simp
qed

theorem uart_buffers_bounded_witness:
  "case ((\<lambda>(buffer, s). command_thread_iteration sim_board prj_conf buffer s) ^^ 1000) (command_thread_start sim_uart) of
     (buffer, s') \<Rightarrow> length buffer < 144 \<and> length (prov_accum s') < 144"
  using uart_buffers_bounded [where cfg = prj_conf and s = sim_uart and z = sim_board and n = 1000]
  unfolding prj_uart(2) sim_uart_ready(2) by simp

text \<open>
  Claim C40. A provisioning command cannot be continued on a second line: a line that is not empty and
  does not start with \<open>prov\<close> drops whatever was accumulated and leaves the provisioned keys in flash
  alone, and one that does start with \<open>prov\<close> starts over. The code that appends a further line to the
  accumulator is never reached.
\<close>

theorem provisioning_lines_never_join:
  fixes s :: "('h, 'z) uart_scheme"
  assumes "nvs_contract z view" "nvs_writable z" "g_loaded s" "APP_CRYPTO_BACKEND_CURVE25519 cfg"
    and "skip_spaces line \<noteq> []"
  shows "(\<not> c_prefix ''prov'' (skip_spaces line) \<longrightarrow>
       prov_accum (handle_line z cfg line s) = [] \<and>
       (\<forall>i. i \<noteq> PERSIST_RECORD_ID \<longrightarrow> view (hw (handle_line z cfg line s)) i = view (hw s) i)) \<and>
     (c_prefix ''prov'' (skip_spaces line) \<longrightarrow> handle_line z cfg line s = handle_line z cfg line (prov_accum_reset s))"
proof -
  have line: "dropWhile c_isspace line = skip_spaces line"
    by (simp add: skip_spaces_def)
  define u where "u = (if 0 < length (prov_accum s) then prov_accum_abort s else s)"
  have u: "prov_accum u = []" "hw u = hw s" "g_loaded u"
    using assms(3) by (auto simp: u_def prov_accum_abort_def prov_accum_reset_def)
  have "prov_accum (handle_line z cfg line s) = []"
    "\<forall>i. i \<noteq> PERSIST_RECORD_ID \<longrightarrow> view (hw (handle_line z cfg line s)) i = view (hw s) i"
    if no: "\<not> c_prefix ''prov'' (skip_spaces line)"
  proof -
    have "handle_line z cfg line s =
        (if c_prefix ''wdg'' (skip_spaces line) then handle_watchdog_command z cfg (drop 3 (skip_spaces line)) u
         else emit (LOG_EVT L_WRN ''UART_CMD'' ''UNKNOWN'' [LStr (skip_spaces line)]) u)"
      using assms(4,5) no u(1) by (simp add: handle_line_def line u_def Let_def)
    then show "prov_accum (handle_line z cfg line s) = []"
      "\<forall>i. i \<noteq> PERSIST_RECORD_ID \<longrightarrow> view (hw (handle_line z cfg line s)) i = view (hw s) i"
      using u watchdog_records [OF assms(1,2) u(3)] by simp_all
  qed
  moreover have "handle_line z cfg line s = handle_line z cfg line (prov_accum_reset s)"
    if "c_prefix ''prov'' (skip_spaces line)"
  proof -
    have "\<not> c_prefix ''wdg'' (skip_spaces line)"
      using that by (cases "skip_spaces line") (auto simp: c_prefix_def)
    then show ?thesis
      using that assms(4,5) by (simp add: handle_line_def line prov_accum_reset_def Let_def)
  qed
  ultimately show ?thesis
    by blast
qed

theorem provisioning_lines_never_join_witness:
  "prov_accum (handle_line sim_board prj_conf ''00ff'' (sim_uart\<lparr>prov_accum := ''prov curve''\<rparr>)) = []"
  using provisioning_lines_never_join [OF sim_nvs_contract sim_nvs_writable _ prj_uart(1),
      of "sim_uart\<lparr>prov_accum := ''prov curve''\<rparr>" "''00ff''"] sim_uart_ready(1)
  by (simp add: skip_spaces_def c_isspace_def c_prefix_def)

end
