(* ===== verification/Sensor_Hts221.thy ===== *)
theory Sensor_Hts221
  imports Uart_Commands
begin

text \<open>
  \<open>src/sensor_hts221.c\<close>: the delayable work item that samples the sensor, reports the sample (in the
  clear for the first ten, encrypted afterwards when the crypto component is ready), blinks the LED
  and gives both heartbeats. Its file-scope variables come last in the chain of records, so that the
  boot sequence sees those of all components.
\<close>

section \<open>The code\<close>

record 'h sensor = "'h uart" +
  sensor_led_ready :: bool
  sensor_poll_interval_ms :: u32
  sample_counter :: u32

text \<open>The memory image of \<open>struct sensor_sample_payload\<close>: two little-endian \<open>int64_t\<close>.\<close>

definition le64 :: "i64 \<Rightarrow> u8 list" where
  "le64 w = le32 (ucast w) @ le32 (ucast (drop_bit 32 w))"

definition sensor_sample_payload :: "i64 \<Rightarrow> i64 \<Rightarrow> u8 list" where
  "sensor_sample_payload temp_mc humidity_mpct = le64 temp_mc @ le64 humidity_mpct"

text \<open>The loop of \<open>blink_sensor_led\<close> with \<open>n\<close> rounds to go.\<close>

fun blink_loop :: "'h zephyr \<Rightarrow> nat \<Rightarrow> ('h, 'z) sensor_scheme \<Rightarrow> ('h, 'z) sensor_scheme" where
  "blink_loop z 0 s = s"
| "blink_loop z (Suc n) s =
     (let (rc, h) = gpio_pin_set z 1 (hw s);
          s = s\<lparr>hw := h\<rparr>
      in if rc \<noteq> 0 then s\<lparr>sensor_led_ready := False\<rparr>
         else let s = msleep z 40 s;
                  (rc, h) = gpio_pin_set z 0 (hw s);
                  s = s\<lparr>hw := h\<rparr>
         in if rc \<noteq> 0 then s\<lparr>sensor_led_ready := False\<rparr>
            else blink_loop z n (msleep z 40 s))"

definition blink_sensor_led :: "'h zephyr \<Rightarrow> ('h, 'z) sensor_scheme \<Rightarrow> ('h, 'z) sensor_scheme" where
  "blink_sensor_led z s = (if \<not> sensor_led_ready s then s else blink_loop z 2 s)"

definition schedule_next_poll :: "('h, 'z) sensor_scheme \<Rightarrow> ('h, 'z) sensor_scheme" where
  "schedule_next_poll s = emit (Work_Schedule (unat (sensor_poll_interval_ms s))) s"

text \<open>
  The reading of the sensor: 0 with the two values in milli-units, or the code of the first call that
  failed and whether it was the fetch.
\<close>

definition read_sensor :: "'h zephyr \<Rightarrow> 'h \<Rightarrow> (rc \<times> bool) \<times> i64 \<times> i64 \<times> 'h" where
  "read_sensor z h =
     (let (fetch_status, h) = sensor_sample_fetch z h
      in if fetch_status \<noteq> 0 then ((fetch_status, True), 0, 0, h)
         else let (rc, temp_mc) = sensor_channel_get_milli z SENSOR_CHAN_AMBIENT_TEMP h
              in if rc \<noteq> 0 then ((rc, False), 0, 0, h)
                 else let (rc, humid_mpct) = sensor_channel_get_milli z SENSOR_CHAN_HUMIDITY h
                      in if rc \<noteq> 0 then ((rc, False), 0, 0, h) else ((0, False), temp_mc, humid_mpct, h))"

text \<open>The encrypted report of a sample: whether it was logged.\<close>

definition log_encrypted_sample ::
    "'h zephyr \<Rightarrow> i64 \<Rightarrow> i64 \<Rightarrow> ('h, 'z) sensor_scheme \<Rightarrow> bool \<times> ('h, 'z) sensor_scheme" where
  "log_encrypted_sample z temp_mc humid_mpct s =
     (let payload = sensor_sample_payload temp_mc humid_mpct;
          have_mac = (app_crypto_get_backend s = APP_CRYPTO_BACKEND_TYPE_CURVE25519);
          (enc_rc, out, s) = app_crypto_encrypt_buffer payload 16 s
      in case out of
           None \<Rightarrow> (False, s)
         | Some (cipher, iv) \<Rightarrow>
             if enc_rc \<noteq> 0 then (False, s)
             else
             let mac = (if have_mac then app_crypto_compute_sample_mac z iv cipher s else 0)
             in case (app_crypto_bytes_to_hex iv (APP_CRYPTO_IV_LEN * 2 + 1), app_crypto_bytes_to_hex cipher 33) of
                  ((iv_rc, Some iv_hex), (data_rc, Some data_hex)) \<Rightarrow>
                    if iv_rc = 0 \<and> data_rc = 0
                    then (True, emit (LOG_EVT L_INF ''SENSOR'' ''HTS221_SAMPLE''
                           (if have_mac then [LStr iv_hex, LStr data_hex, LU mac] else [LStr iv_hex, LStr data_hex])) s)
                    else (False, s)
                | _ \<Rightarrow> (False, s))"

definition report_sample ::
    "'h zephyr \<Rightarrow> i64 \<Rightarrow> i64 \<Rightarrow> ('h, 'z) sensor_scheme \<Rightarrow> ('h, 'z) sensor_scheme" where
  "report_sample z temp_mc humid_mpct s =
     (let use_encryption = (app_crypto_is_enabled s \<and> 10 \<le> sample_counter s);
          (logged, s) = (if use_encryption then log_encrypted_sample z temp_mc humid_mpct s else (False, s));
          s = (if \<not> logged
               then emit (LOG_EVT L_INF ''SENSOR'' ''HTS221_SAMPLE'' [LNum (sint temp_mc), LNum (sint humid_mpct)]) s
               else s);
          s = s\<lparr>sample_counter := sample_counter s + 1\<rparr>
      in blink_sensor_led z s)"

definition sensor_work_handler :: "'h zephyr \<Rightarrow> ('h, 'z) sensor_scheme \<Rightarrow> ('h, 'z) sensor_scheme" where
  "sensor_work_handler z s =
     (let ((rc, fetch_failed), temp_mc, humid_mpct, h) = read_sensor z (hw s);
          s = s\<lparr>hw := h\<rparr>;
          s = (if rc = 0 then report_sample z temp_mc humid_mpct s
               else if fetch_failed then emit (LOG_EVT L_WRN ''SENSOR'' ''HTS221_FETCH_FAIL'' [LNum rc]) s
               else emit (LOG_EVT L_WRN ''SENSOR'' ''HTS221_CHAN_FAIL'' [LNum rc]) s);
          s = supervisor_notify_led_alive z s;
          s = supervisor_notify_system_alive z s
      in schedule_next_poll s)"

definition sensor_hts221_start ::
    "'h zephyr \<Rightarrow> app_config \<Rightarrow> bool \<Rightarrow> ('h, 'z) sensor_scheme \<Rightarrow> rc \<times> ('h, 'z) sensor_scheme" where
  "sensor_hts221_start z cfg safe_mode_active s =
     (if \<not> device_is_ready z Hts221_Dev (hw s) then (- ENODEV, s)
      else
      let interval = (if safe_mode_active then APP_SENSOR_SAFE_MODE_INTERVAL_MS cfg
                      else APP_SENSOR_SAMPLE_INTERVAL_MS cfg);
          s = s\<lparr>sensor_poll_interval_ms := (if interval = 0 then 1000 else interval)\<rparr>;
          (led_rc, h) = gpio_pin_configure_output_inactive z (hw s);
          s = s\<lparr>hw := h, sensor_led_ready := (led_rc = 0)\<rparr>;
          s = emit (LOG_EVT L_INF ''SENSOR'' ''HTS221_READY''
                [LU (sensor_poll_interval_ms s), LStr (yes_no safe_mode_active),
                 LStr (if sensor_led_ready s then ''on'' else ''off'')]) s;
          s = schedule_next_poll s
      in (0, s\<lparr>sample_counter := 0\<rparr>))"

section \<open>Lemmas\<close>

lemma length_le64 [simp]: "length (le64 w) = 8"
  by (simp add: le64_def)

lemma length_sensor_sample_payload [simp]: "length (sensor_sample_payload t h) = 16"
  by (simp add: sensor_sample_payload_def)

lemma le64_inject: "le64 v = le64 w \<longleftrightarrow> v = w"
proof
  assume "le64 v = le64 w"
  then have eq: "ucast v = (ucast w :: u32)" "ucast (drop_bit 32 v) = (ucast (drop_bit 32 w) :: u32)"
    by (simp_all add: le64_def)
  have bits: "bit v i = bit w i" "bit v (32 + i) = bit w (32 + i)" if "i < 32" for i
    using that arg_cong [OF eq(1), of "\<lambda>x. bit x i"] arg_cong [OF eq(2), of "\<lambda>x. bit x i"]
    by (simp_all add: bit_ucast_iff bit_drop_bit_eq)
  show "v = w"
  proof (rule bit_word_eqI)
    fix n
    assume "n < LENGTH(64)"
    then show "bit v n = bit w n"
      using bits(1) [of n] bits(2) [of "n - 32"] by (cases "n < 32") simp_all
  qed
qed simp

lemma payload_inject: "sensor_sample_payload t h = sensor_sample_payload t' h' \<longleftrightarrow> t = t' \<and> h = h'"
  by (simp add: sensor_sample_payload_def le64_inject)

text \<open>The arguments of the sample lines of a trace.\<close>

definition sample_lines :: "effect list \<Rightarrow> log_arg list list" where
  "sample_lines es = [args. Evt level tag status args \<leftarrow> es, tag = ''SENSOR'' \<and> status = ''HTS221_SAMPLE'']"

lemma sample_lines_append [simp]: "sample_lines (xs @ ys) = sample_lines xs @ sample_lines ys"
  by (simp add: sample_lines_def)

lemma sample_lines_simps [simp]:
  "sample_lines [] = []"
  "sample_lines (Sleep n # es) = sample_lines es"
  "sample_lines (Work_Schedule n # es) = sample_lines es"
  "sample_lines (LOG_EVT l ''SENSOR'' ''HTS221_SAMPLE'' args # es) = args # sample_lines es"
  "sample_lines (LOG_EVT l ''SENSOR'' ''HTS221_FETCH_FAIL'' args # es) = sample_lines es"
  "sample_lines (LOG_EVT l ''SENSOR'' ''HTS221_CHAN_FAIL'' args # es) = sample_lines es"
  by (simp_all add: sample_lines_def LOG_EVT_def)

lemma blink_sample_lines:
  "sample_lines (trace (blink_loop z n s)) = sample_lines (trace s)"
  by (induction n arbitrary: s) (simp_all add: Let_def case_prod_beta)

lemma notify_trace [simp]:
  "trace (supervisor_notify_led_alive z s) = trace s"
  "trace (supervisor_notify_system_alive z s) = trace s"
  by (simp_all add: supervisor_notify_led_alive_def supervisor_notify_system_alive_def case_prod_beta)

lemma handler_sample_lines:
  "sample_lines (trace (sensor_work_handler z s)) =
     (case read_sensor z (hw s) of ((rc, _), temp_mc, humid_mpct, h) \<Rightarrow>
        if rc = 0 then sample_lines (trace (report_sample z temp_mc humid_mpct (s\<lparr>hw := h\<rparr>)))
        else sample_lines (trace s))"
  by (simp add: sensor_work_handler_def schedule_next_poll_def Let_def split: prod.splits)

text \<open>The encrypted line, once the crypto component is ready.\<close>

lemma log_encrypted_line:
  assumes "app_crypto_is_enabled s"
  obtains iv cipher u rest where
    "log_encrypted_sample z t h s =
       (True, emit (LOG_EVT L_INF ''SENSOR'' ''HTS221_SAMPLE''
          (LStr (hex_encode hex_chars iv) # LStr (hex_encode hex_chars cipher) # rest)) u)"
    "trace u = trace s" "length iv = 12" "length cipher = 16"
    "cipher = ctr_process (aes_ctx s) (sensor_sample_payload t h) iv"
proof -
  define iv where "iv = fst (generate_iv s)"
  define cipher where "cipher = ctr_process (aes_ctx s) (sensor_sample_payload t h) iv"
  define u where "u = snd (generate_iv s)"
  have "sensor_sample_payload t h \<noteq> []"
    using length_sensor_sample_payload [of t h] by force
  then have enc: "app_crypto_encrypt_buffer (sensor_sample_payload t h) 16 s = (0, Some (cipher, iv), u)"
    using assms by (simp add: encrypt_success iv_def cipher_def u_def)
  have u: "trace u = trace s" "length iv = 12" "length cipher = 16"
    by (simp_all add: u_def generate_iv_state iv_def cipher_def)
  have "log_encrypted_sample z t h s =
       (True, emit (LOG_EVT L_INF ''SENSOR'' ''HTS221_SAMPLE''
          (LStr (hex_encode hex_chars iv) # LStr (hex_encode hex_chars cipher) #
           (if app_crypto_get_backend s = APP_CRYPTO_BACKEND_TYPE_CURVE25519
            then [LU (app_crypto_compute_sample_mac z iv cipher u)] else []))) u)"
    by (simp add: log_encrypted_sample_def enc Let_def u app_crypto_bytes_to_hex_def APP_CRYPTO_IV_LEN_def)
  then show ?thesis
    using u cipher_def by (rule that)
qed

lemma report_encrypted:
  assumes "app_crypto_is_enabled s" "10 \<le> sample_counter s" "log_encrypted_sample z t h s = (True, u)"
  shows "sample_lines (trace (report_sample z t h s)) = sample_lines (trace u)"
proof -
  have "report_sample z t h s = blink_sensor_led z (u\<lparr>sample_counter := sample_counter u + 1\<rparr>)"
    using assms by (simp add: report_sample_def)
  then show ?thesis
    by (simp add: blink_sensor_led_def blink_sample_lines)
qed

text \<open>
  Nothing in the handler makes a heartbeat depend on the sensor: a failed fetch is logged, and then
  both heartbeats are given and the next poll is scheduled as after a good sample.
\<close>

lemma failed_fetch_gives_heartbeats:
  assumes "sensor_sample_fetch z (hw s) = (rc, h)" "rc \<noteq> 0"
  shows "sensor_work_handler z s =
     schedule_next_poll (supervisor_notify_system_alive z (supervisor_notify_led_alive z
       (emit (LOG_EVT L_WRN ''SENSOR'' ''HTS221_FETCH_FAIL'' [LNum rc]) (s\<lparr>hw := h\<rparr>))))"
  using assms by (simp add: sensor_work_handler_def read_sensor_def Let_def)

section \<open>Properties\<close>

text \<open>
  Claim C23. From the eleventh sample on, with the crypto component ready, the handler writes exactly
  one sample line, and it is the encrypted one: reading the two hexadecimal fields back with
  \<open>parse_hex_string\<close> and decrypting them in any state that holds the same key schedule gives the two
  64-bit readings, so neither a reading nor a field is lost on the way, and none is logged in clear.
\<close>

theorem encrypted_sample_recoverable:
  fixes s :: "('h, 'z) sensor_scheme"
  assumes "app_crypto_is_enabled s" "10 \<le> sample_counter s"
    and "read_sensor z (hw s) = ((0, f), temp_mc, humid_mpct, h)"
  shows "\<exists>iv_hex data_hex rest iv cipher.
       sample_lines (trace (sensor_work_handler z s)) =
         sample_lines (trace s) @ [LStr iv_hex # LStr data_hex # rest] \<and>
       parse_hex_string iv_hex APP_CRYPTO_IV_LEN = (12, iv) \<and> parse_hex_string data_hex 16 = (16, cipher) \<and>
       (\<forall>t :: ('h, 'z) sensor_scheme. app_crypto_is_enabled t \<and> aes_ctx t = aes_ctx s \<longrightarrow>
          app_crypto_decrypt_buffer cipher iv 16 t = (0, Some (sensor_sample_payload temp_mc humid_mpct)))"
proof -
  define s1 where "s1 = s\<lparr>hw := h\<rparr>"
  have s1: "app_crypto_is_enabled s1" "10 \<le> sample_counter s1" "trace s1 = trace s" "aes_ctx s1 = aes_ctx s"
    using assms(1,2) by (simp_all add: s1_def app_crypto_is_enabled_def)
  obtain iv cipher u rest where line: "log_encrypted_sample z temp_mc humid_mpct s1 =
       (True, emit (LOG_EVT L_INF ''SENSOR'' ''HTS221_SAMPLE''
          (LStr (hex_encode hex_chars iv) # LStr (hex_encode hex_chars cipher) # rest)) u)"
    and u: "trace u = trace s1" and len: "length iv = 12" "length cipher = 16"
    and cipher: "cipher = ctr_process (aes_ctx s1) (sensor_sample_payload temp_mc humid_mpct) iv"
    by (rule log_encrypted_line [OF s1(1)])
  have "sample_lines (trace (sensor_work_handler z s)) = sample_lines (trace (report_sample z temp_mc humid_mpct s1))"
    by (simp add: handler_sample_lines assms(3) s1_def)
  then have "sample_lines (trace (sensor_work_handler z s)) = sample_lines (trace s) @
      [LStr (hex_encode hex_chars iv) # LStr (hex_encode hex_chars cipher) # rest]"
    by (simp add: report_encrypted [OF s1(1,2) line] u s1(3))
  moreover have "parse_hex_string (hex_encode hex_chars iv) APP_CRYPTO_IV_LEN = (12, iv)"
    "parse_hex_string (hex_encode hex_chars cipher) 16 = (16, cipher)"
    using parse_printed_hex [of iv 12] parse_printed_hex [of cipher 16] len by (simp_all add: APP_CRYPTO_IV_LEN_def)
  moreover have "app_crypto_decrypt_buffer cipher iv 16 t = (0, Some (sensor_sample_payload temp_mc humid_mpct))"
    if "app_crypto_is_enabled t \<and> aes_ctx t = aes_ctx s" for t :: "('h, 'z) sensor_scheme"
    using that len cipher unfolding s1(4) by (auto simp: app_crypto_decrypt_buffer_def ctr_process_involution)
  ultimately show ?thesis
    by (intro exI conjI allI impI) assumption+
qed

definition sim_sensor :: "(sim, unit) sensor_scheme" where
  \<comment> \<open>a board that has reported ten samples, with a key schedule in place\<close>
  "sim_sensor = uart.extend (sim_uart\<lparr>hw := sim_boot, crypto_ready := True, iv_seed := replicate 12 3,
       aes_ctx := \<lparr>round_keys = replicate 240 5, rounds = 14\<rparr>,
       active_backend := APP_CRYPTO_BACKEND_TYPE_AES\<rparr>)
     \<lparr>sensor_led_ready = True, sensor_poll_interval_ms = 2000, sample_counter = 10\<rparr>"

theorem encrypted_sample_recoverable_witness:
  "\<exists>data_hex cipher iv. [data_hex] = map (\<lambda>args. args ! 1) (sample_lines
       (trace (sensor_work_handler sim_board (sim_sensor\<lparr>trace := []\<rparr>)))) \<and>
     app_crypto_decrypt_buffer cipher iv 16 sim_sensor = (0, Some (sensor_sample_payload 21500 40250))"
proof -
  let ?s = "sim_sensor\<lparr>trace := []\<rparr>"
  have ready: "app_crypto_is_enabled ?s" "app_crypto_is_enabled sim_sensor" "aes_ctx sim_sensor = aes_ctx ?s"
    "10 \<le> sample_counter ?s" "trace ?s = []"
    by (simp_all add: sim_sensor_def uart.defs app_crypto_is_enabled_def sensor.defs)
  have read: "read_sensor sim_board (hw ?s) = ((0, False), 21500, 40250, hw ?s)"
    by (simp add: read_sensor_def sim_sensor_def uart.defs sensor.defs sim_board_def sim_boot_def)
  show ?thesis
    using encrypted_sample_recoverable [OF ready(1,4) read] ready by fastforce
qed

end
