(* ===== verification/App_Main.thy ===== *)
theory App_Main
  imports Sensor_Hts221
begin

text \<open>
  \<open>src/main.c\<close>: the boot sequence, which ties the components together. It is cut where the source
  separates its steps: \<open>main_init\<close> brings up crypto and persistence, \<open>main_history\<close> counts the reset and
  decides on safe mode, \<open>main_supervision\<close> starts recovery, watchdog and supervisor, and
  \<open>main_services\<close> the sensor and the console. The lemmas follow a device over many lives, each a
  boot and then operations on the record.
\<close>

section \<open>The code\<close>

definition hex_digit_value :: "char \<Rightarrow> int" where
  "hex_digit_value c = (let n = (of_char c :: int) in
     if 48 \<le> n \<and> n \<le> 57 then n - 48
     else if 97 \<le> n \<and> n \<le> 102 then 10 + (n - 97)
     else if 65 \<le> n \<and> n \<le> 70 then 10 + (n - 65)
     else -1)"

text \<open>The return code and the bytes written to \<open>out\<close>; \<open>None\<close> is a \<open>NULL\<close> string.\<close>

definition decode_hex_key :: "string option \<Rightarrow> rc \<times> u8 list" where
  "decode_hex_key hex =
     (case hex of
        None \<Rightarrow> (- EINVAL, [])
      | Some hex \<Rightarrow>
          if length hex \<noteq> CURVE25519_KEY_SIZE * 2 then (- EINVAL, [])
          else let (out, ok) = hex_decode_loop hex_digit_value hex in (if ok then 0 else - EINVAL, out))"

definition autoload_curve_keys :: "'h zephyr \<Rightarrow> app_config \<Rightarrow> ('h, 'z) sensor_scheme \<Rightarrow> ('h, 'z) sensor_scheme" where
  "autoload_curve_keys z cfg s =
     (let secret_hex = APP_CURVE25519_STATIC_SECRET_HEX cfg;
          (rc, buf) = decode_hex_key (Some secret_hex);
          s = (if secret_hex \<noteq> [] \<and> rc = 0 then snd (persist_state_curve25519_set_secret z cfg (Some buf) s) else s);
          peer_hex = APP_CURVE25519_STATIC_PEER_PUB_HEX cfg;
          (rc, buf) = decode_hex_key (Some peer_hex)
      in if peer_hex \<noteq> [] \<and> rc = 0 then snd (persist_state_curve25519_set_peer z cfg (Some buf) s) else s)"

text \<open>\<open>RESET_WATCHDOG\<close> of the hwinfo API.\<close>

definition RESET_WATCHDOG :: u32 where
  "RESET_WATCHDOG = push_bit 4 1"

definition log_reset_cause :: "'h zephyr \<Rightarrow> ('h, 'z) sensor_scheme \<Rightarrow> u32 \<times> ('h, 'z) sensor_scheme" where
  "log_reset_cause z s =
     (let (rc, cause) = hwinfo_get_reset_cause z (hw s)
      in if rc = 0 then (cause, s\<lparr>hw := hwinfo_clear_reset_cause z (hw s)\<rparr>) else (0, s))"

definition main_init :: "'h zephyr \<Rightarrow> app_config \<Rightarrow> ('h, 'z) sensor_scheme \<Rightarrow> ('h, 'z) sensor_scheme" where
  "main_init z cfg s =
     (let s = emit (LOG_EVT_SIMPLE L_INF ''APP'' ''START'') s;
          (ret, s) = app_crypto_init z cfg s;
          (ret, s) = persist_state_init z cfg s
      in if APP_PROVISION_AUTO_PERSIST cfg then autoload_curve_keys z cfg s else s)"

text \<open>The verdict on safe mode.\<close>

definition main_history :: "'h zephyr \<Rightarrow> app_config \<Rightarrow> ('h, 'z) sensor_scheme \<Rightarrow> bool \<times> ('h, 'z) sensor_scheme" where
  "main_history z cfg s =
     (let (reset_cause, s) = log_reset_cause z s;
          watchdog_reset = (reset_cause AND RESET_WATCHDOG \<noteq> 0);
          s = persist_state_record_boot z cfg watchdog_reset s;
          consecutive = persist_state_get_consecutive_watchdog s;
          s = (if consecutive \<noteq> 0
               then emit (LOG_EVT L_WRN ''WATCHDOG'' ''RESET_HISTORY''
                      [LU consecutive, LU (persist_state_get_total_watchdog s)]) s
               else s);
          safe_mode_active = persist_state_is_fallback_active cfg s;
          s = (if safe_mode_active
               then emit (LOG_EVT_SIMPLE L_INF ''WATCHDOG'' ''COUNTER_CLEARED'')
                      (persist_state_clear_watchdog_counter z cfg
                         (emit (LOG_EVT_SIMPLE L_ERR ''SAFE_MODE'' ''ENTERED'') s))
               else s)
      in (safe_mode_active, s))"

text \<open>Whether \<open>main\<close> goes on: it returns early when the watchdog cannot be started.\<close>

definition main_supervision ::
    "'h zephyr \<Rightarrow> app_config \<Rightarrow> bool \<Rightarrow> ('h, 'z) sensor_scheme \<Rightarrow> bool \<times> ('h, 'z) sensor_scheme" where
  "main_supervision z cfg safe_mode_active s =
     (let s = recovery_start z s;
          s = recovery_schedule_safe_mode_reboot z (if safe_mode_active then APP_SAFE_MODE_REBOOT_DELAY_MS cfg else 0) s;
          boot_timeout_ms = APP_WATCHDOG_BOOT_TIMEOUT_MS cfg;
          steady_timeout_ms = persist_state_get_watchdog_override s;
          steady_timeout_ms = (if steady_timeout_ms = 0 then APP_WATCHDOG_STEADY_TIMEOUT_MS cfg else steady_timeout_ms);
          retune_delay_ms = APP_WATCHDOG_RETUNE_DELAY_MS cfg;
          (steady_timeout_ms, retune_delay_ms) =
            (if safe_mode_active then (max steady_timeout_ms boot_timeout_ms, 0)
             else (steady_timeout_ms, retune_delay_ms));
          (ret, s) = watchdog_ctrl_init z boot_timeout_ms s
      in if ret \<noteq> 0 then
           (let s = emit (LOG_EVT L_ERR ''WATCHDOG'' ''INIT_FAIL'' [LNum ret]) s;
                s = emit (LOG_EVT_SIMPLE L_ERR ''RECOVERY'' ''WATCHDOG_INIT_FAIL'') s
            in (False, recovery_request z cfg RECOVERY_REASON_WATCHDOG_INIT_FAIL s))
         else
           let s = emit (LOG_EVT L_INF ''WATCHDOG'' ''CONFIGURED''
                     [LU boot_timeout_ms, LU steady_timeout_ms, LU retune_delay_ms]) s;
               s = (if safe_mode_active
                    then emit (LOG_EVT_SIMPLE L_WRN ''WATCHDOG'' ''RETUNE_DISABLED_SAFE_MODE'') s else s)
           in (True, supervisor_start z cfg steady_timeout_ms retune_delay_ms True s))"

definition main_services ::
    "'h zephyr \<Rightarrow> app_config \<Rightarrow> bool \<Rightarrow> ('h, 'z) sensor_scheme \<Rightarrow> ('h, 'z) sensor_scheme" where
  "main_services z cfg safe_mode_active s =
     (let s = (if \<not> APP_PROVISION_BUILD cfg
               then let (ret, s) = sensor_hts221_start z cfg safe_mode_active s
                    in if ret \<noteq> 0 then emit (LOG_EVT L_ERR ''SENSOR'' ''HTS221_INIT_FAIL'' [LNum ret]) s else s
               else s);
          s = (if APP_ENABLE_UART_COMMANDS cfg then uart_commands_start z cfg safe_mode_active s else s)
      in emit (LOG_EVT_SIMPLE L_INF ''APP'' ''READY'') (msleep z 120 s))"

definition main :: "'h zephyr \<Rightarrow> app_config \<Rightarrow> ('h, 'z) sensor_scheme \<Rightarrow> ('h, 'z) sensor_scheme" where
  "main z cfg s =
     (let s = main_init z cfg s;
          (safe_mode_active, s) = main_history z cfg s
      in if \<not> APP_PROVISION_BUILD cfg then
           let (go_on, s) = main_supervision z cfg safe_mode_active s
           in if go_on then main_services z cfg safe_mode_active s else s
         else main_services z cfg safe_mode_active s)"

interpretation main_hex: hex_digits hex_digit_value
  by (rule hex_digits_by_ranges) (simp add: hex_digit_value_def)

section \<open>A device over many lives\<close>

text \<open>A board whose last reset had the cause \<open>c\<close>, and the part of a boot that looks at the history.\<close>

definition with_cause :: "'h zephyr \<Rightarrow> u32 \<Rightarrow> 'h zephyr" where
  "with_cause z c = z\<lparr>hwinfo_get_reset_cause := (\<lambda>h. (0, c))\<rparr>"

definition boot :: "'h zephyr \<Rightarrow> app_config \<Rightarrow> u32 \<Rightarrow> ('h, 'z) sensor_scheme \<Rightarrow> bool \<times> ('h, 'z) sensor_scheme" where
  "boot z cfg c s = (let z = with_cause z c in main_history z cfg (main_init z cfg (persist_power_on s)))"

text \<open>
  One life after the other: a reset with its cause, then any operations on the record until the next
  reset. The result lists whether safe mode was entered.
\<close>

type_synonym life = "u32 \<times> persist_op list"

fun lives :: "'h zephyr \<Rightarrow> app_config \<Rightarrow> life list \<Rightarrow> ('h, 'z) sensor_scheme \<Rightarrow> bool list \<times> ('h, 'z) sensor_scheme" where
  "lives z cfg [] s = ([], s)"
| "lives z cfg ((c, ops) # ls) s =
     (let (safe, s) = boot z cfg c s;
          (safes, s) = lives z cfg ls (fold (persist_step z cfg) ops s)
      in (safe # safes, s))"

text \<open>What the documentation promises of it, on four counters.\<close>

definition spec_boot :: "u32 \<Rightarrow> u32 \<Rightarrow> persist_blob \<Rightarrow> bool \<times> persist_blob" where
  "spec_boot threshold c b =
     (let b = spec_step (Record_Boot (bit c 4)) b
      in if threshold \<le> consecutive_watchdog b then (True, spec_step Clear_Counter b) else (False, b))"

fun spec_lives :: "u32 \<Rightarrow> life list \<Rightarrow> persist_blob \<Rightarrow> bool list" where
  "spec_lives threshold [] b = []"
| "spec_lives threshold ((c, ops) # ls) b =
     (let (safe, b) = spec_boot threshold c b in safe # spec_lives threshold ls (fold spec_step ops b))"

section \<open>Lemmas\<close>

lemma with_cause_good [simp]: "good_flash (with_cause z c) view \<longleftrightarrow> good_flash z view"
  by (simp add: good_flash_def nvs_contract_def nvs_read_ok_def nvs_write_ok_def storage_quiet_def nvs_writable_def
      flash_healthy_def with_cause_def)

lemma watchdog_bit: "c AND RESET_WATCHDOG \<noteq> 0 \<longleftrightarrow> bit c 4"
proof -
  have "RESET_WATCHDOG = 2 ^ 4"
    by (simp add: RESET_WATCHDOG_def push_bit_eq_mult)
  then have "c AND RESET_WATCHDOG = (if bit c 4 then 16 else 0)"
    using and_one_bit [of c 4] by simp
  then show ?thesis
    by simp
qed

lemma synced_frame [simp]:
  "synced z cfg view (emit e s) \<longleftrightarrow> synced z cfg view s"
  by (simp add: synced_def holds_record_cong [where s = s and t = "emit e s"] app_crypto_is_enabled_def)

text \<open>Operations on a loaded record change its RAM copy and what encryption and flash change, no more.\<close>

lemma persist_step_frame:
  fixes s :: "('h, 'z) persist_scheme"
  assumes "g_loaded s" "op \<noteq> Reload"
  shows "same_but_iv (s\<lparr>g_blob := g_blob (persist_step z cfg op s)\<rparr>) (persist_step z cfg op s)"
proof -
  have commit: "same_but_iv (s\<lparr>g_blob := g_blob (snd (persist_commit_locked z cfg (s\<lparr>g_blob := b\<rparr>)))\<rparr>)
      (snd (persist_commit_locked z cfg (s\<lparr>g_blob := b\<rparr>)))" for b
    using commit_frame [of "s\<lparr>g_blob := b\<rparr>" z cfg] by (simp add: commit_same)
  have self: "same_but_iv (s\<lparr>g_blob := g_blob s\<rparr>) s"
    by simp
  show ?thesis
    using assms commit self
    by (cases op)
      (simp_all add: persist_state_record_boot_def persist_state_clear_watchdog_counter_def
        persist_state_set_watchdog_override_def persist_state_next_session_counter_def Let_def)
qed

lemma persist_step_keeps:
  fixes s :: "('h, 'z) persist_scheme"
  assumes "g_loaded s" "op \<noteq> Reload"
  shows "g_loaded (persist_step z cfg op s)" "aes_ctx (persist_step z cfg op s) = aes_ctx s"
    "app_crypto_is_enabled (persist_step z cfg op s) \<longleftrightarrow> app_crypto_is_enabled s"
  using same_but_ivD(3,4,5) [OF persist_step_frame [OF assms, of z cfg]] assms(1)
  by (simp_all add: app_crypto_is_enabled_def)

lemma persist_steps_keep:
  fixes s :: "('h, 'z) persist_scheme"
  assumes "g_loaded s" "Reload \<notin> set ops"
  shows "g_loaded (fold (persist_step z cfg) ops s) \<and> aes_ctx (fold (persist_step z cfg) ops s) = aes_ctx s \<and>
    (app_crypto_is_enabled (fold (persist_step z cfg) ops s) \<longleftrightarrow> app_crypto_is_enabled s)"
  using assms
proof (induction ops arbitrary: s)
  case (Cons op ops)
  then have "g_loaded s" "op \<noteq> Reload" "Reload \<notin> set ops"
    by auto
  with persist_step_keeps [OF this(1,2), of z cfg] Cons.IH [of "persist_step z cfg op s"] show ?case
    by simp
qed simp

lemma persist_steps_refine:
  fixes s :: "('h, 'z) persist_scheme"
  assumes z: "good_flash z view" and s: "synced z cfg view s"
  shows "synced z cfg view (fold (persist_step z cfg) ops s) \<and>
     g_blob (fold (persist_step z cfg) ops s) = fold spec_step ops (g_blob s)"
  using store.run [of z view cfg s ops] z s by (simp add: good_flash_def)

text \<open>What the boot decides and what it leaves in flash.\<close>

lemma history_steps:
  assumes cause: "\<And>h. hwinfo_get_reset_cause z h = (0, c)"
    and t_def: "t = persist_step z cfg (Record_Boot (bit c 4)) (s\<lparr>hw := hwinfo_clear_reset_cause z (hw s)\<rparr>)"
  obtains u where
    "main_history z cfg s =
       (if APP_RESET_WATCHDOG_THRESHOLD cfg \<le> consecutive_watchdog (g_blob t)
        then (True, emit (LOG_EVT_SIMPLE L_INF ''WATCHDOG'' ''COUNTER_CLEARED'') (persist_step z cfg Clear_Counter u))
        else (False, u))"
    "u = t \<or> (\<exists>e. u = emit e t) \<or> (\<exists>e f. u = emit f (emit e t))"
proof -
  define u where "u = (if consecutive_watchdog (g_blob t) \<noteq> 0
      then emit (LOG_EVT L_WRN ''WATCHDOG'' ''RESET_HISTORY''
             [LU (consecutive_watchdog (g_blob t)), LU (persist_state_get_total_watchdog t)]) t
      else t)"
  define v where "v = (if APP_RESET_WATCHDOG_THRESHOLD cfg \<le> consecutive_watchdog (g_blob t)
      then emit (LOG_EVT_SIMPLE L_ERR ''SAFE_MODE'' ''ENTERED'') u else u)"
  have "main_history z cfg s =
       (if APP_RESET_WATCHDOG_THRESHOLD cfg \<le> consecutive_watchdog (g_blob t)
        then (True, emit (LOG_EVT_SIMPLE L_INF ''WATCHDOG'' ''COUNTER_CLEARED'') (persist_step z cfg Clear_Counter v))
        else (False, v))"
    by (simp add: main_history_def log_reset_cause_def cause watchdog_bit persist_state_get_consecutive_watchdog_def
        persist_state_is_fallback_active_def t_def u_def v_def Let_def)
  moreover have "v = t \<or> (\<exists>e. v = emit e t) \<or> (\<exists>e f. v = emit f (emit e t))"
    by (auto simp: u_def v_def)
  ultimately show ?thesis
    by (rule that)
qed

lemma record_boot_synced:
  fixes s :: "('h, 'z) persist_scheme"
  assumes "good_flash z view" "g_loaded s" "magic (g_blob s) = PERSIST_MAGIC"
  shows "synced z cfg view (persist_step z cfg (Record_Boot wd) s)"
    and "g_blob (persist_step z cfg (Record_Boot wd) s) = spec_step (Record_Boot wd) (g_blob s)"
  using assms by (auto simp: persist_state_record_boot_def commit_synced good_flash_def Let_def)

lemma history_refines:
  fixes s :: "('h, 'z) sensor_scheme"
  assumes z: "good_flash z view" and s: "g_loaded s" "magic (g_blob s) = PERSIST_MAGIC" and cause: "\<And>h. hwinfo_get_reset_cause z h = (0, c)"
  shows "synced z cfg view (snd (main_history z cfg s))"
    and "(fst (main_history z cfg s), g_blob (snd (main_history z cfg s))) =
      spec_boot (APP_RESET_WATCHDOG_THRESHOLD cfg) c (g_blob s)"
    and "aes_ctx (snd (main_history z cfg s)) = aes_ctx s"
    and "app_crypto_is_enabled (snd (main_history z cfg s)) = app_crypto_is_enabled s"
proof -
  let ?s = "s\<lparr>hw := hwinfo_clear_reset_cause z (hw s)\<rparr>"
  define t where "t = persist_step z cfg (Record_Boot (bit c 4)) ?s"
  have z': "nvs_contract z view" "nvs_writable z" "flash_healthy z"
    using z by (simp_all add: good_flash_def)
  have s': "g_loaded ?s" "magic (g_blob ?s) = PERSIST_MAGIC"
    using s by simp_all
  have t: "synced z cfg view t" "g_blob t = spec_step (Record_Boot (bit c 4)) (g_blob s)"
    "aes_ctx t = aes_ctx s" "app_crypto_is_enabled t \<longleftrightarrow> app_crypto_is_enabled s" "g_loaded t"
    using record_boot_synced [OF z s', of cfg "bit c 4"] persist_step_keeps [OF s'(1), of "Record_Boot (bit c 4)" z cfg]
    unfolding t_def by (simp_all add: app_crypto_is_enabled_def del: persist_step.simps)
  obtain u where h: "main_history z cfg s =
       (if APP_RESET_WATCHDOG_THRESHOLD cfg \<le> consecutive_watchdog (g_blob t)
        then (True, emit (LOG_EVT_SIMPLE L_INF ''WATCHDOG'' ''COUNTER_CLEARED'') (persist_step z cfg Clear_Counter u))
        else (False, u))"
    and "u = t \<or> (\<exists>e. u = emit e t) \<or> (\<exists>e f. u = emit f (emit e t))"
    by (rule history_steps [OF cause t_def])
  then have u: "synced z cfg view u" "g_blob u = g_blob t" "aes_ctx u = aes_ctx s"
    "app_crypto_is_enabled u \<longleftrightarrow> app_crypto_is_enabled s" "g_loaded u"
    using t by (auto simp: app_crypto_is_enabled_def)
  note c = persist_step_refines [OF z' u(1), of Clear_Counter] persist_step_keeps [OF u(5), of Clear_Counter z cfg]
  show "synced z cfg view (snd (main_history z cfg s))"
    using u(1) c(1) by (simp add: h del: persist_step.simps)
  show "(fst (main_history z cfg s), g_blob (snd (main_history z cfg s))) =
      spec_boot (APP_RESET_WATCHDOG_THRESHOLD cfg) c (g_blob s)"
    using u(2) c(1) t(2) by (simp add: h spec_boot_def Let_def del: persist_step.simps)
  show "aes_ctx (snd (main_history z cfg s)) = aes_ctx s"
    using u(3) c by (simp add: h del: persist_step.simps)
  show "app_crypto_is_enabled (snd (main_history z cfg s)) = app_crypto_is_enabled s"
    using u(4) c(2-4) by (simp add: h app_crypto_is_enabled_def del: persist_step.simps)
qed

text \<open>
  The AES build. What a boot makes of the stored record: the counters sealed with the configured key,
  or fresh counters when there is no record.
\<close>

definition aes_boot_ctx :: "u8 list \<Rightarrow> simple_aes_ctx" where
  "aes_boot_ctx key = snd (simple_aes_setkey_enc \<lparr>round_keys = replicate 240 0, rounds = 0\<rparr>
     (overwrite key (replicate 32 0)) (length key))"

definition aes_record :: "u8 list \<Rightarrow> ('h \<Rightarrow> nat \<Rightarrow> u8 list option) \<Rightarrow> 'h \<Rightarrow> persist_blob \<Rightarrow> bool" where
  "aes_record key view h b \<longleftrightarrow>
     (case view h PERSIST_RECORD_ID of
        None \<Rightarrow> b = fresh_blob
      | Some d \<Rightarrow> length d = 32 \<and> magic b = PERSIST_MAGIC \<and>
          ctr_process (aes_boot_ctx key) (drop 12 d) (take 12 d) = blob_bytes b)"

lemma synced_aes_record:
  fixes s :: "('h, 'z) persist_scheme"
  assumes "synced z cfg view s" "sealed_storage cfg s" "aes_ctx s = aes_boot_ctx key"
  shows "aes_record key view (hw s) (g_blob s)"
  using assms by (auto simp: synced_def holds_record_def aes_record_def app_crypto_decrypt_buffer_def split: if_splits)

lemma aes_record_loads:
  fixes s :: "('h, 'z) persist_scheme"
  assumes z: "good_flash z view" and s: "\<not> g_loaded s" "sealed_storage cfg s" "aes_ctx s = aes_boot_ctx key"
    and b: "aes_record key view (hw s) b"
  shows "synced z cfg view (snd (init_fs_if_needed z cfg s))" "g_blob (snd (init_fs_if_needed z cfg s)) = b"
proof -
  have z': "nvs_contract z view" "nvs_writable z" "flash_healthy z"
    using z by (simp_all add: good_flash_def)
  have "synced z cfg view (snd (init_fs_if_needed z cfg s)) \<and> g_blob (snd (init_fs_if_needed z cfg s)) = b"
  proof (cases "view (hw s) PERSIST_RECORD_ID")
    case None
    then have "persist_load_blob z cfg (s\<lparr>g_fs := fs, hw := h\<rparr>) = (- ENOENT, None)" if "view h = view (hw s)" for fs h
      using that by (intro persist_load_none [OF z'(1)]) simp
    then show ?thesis
      using init_starts_afresh [OF z'(3,1,2) s(1), of cfg] None b by (fastforce simp: aes_record_def)
  next
    case (Some d)
    then have "holds_record z cfg view b s" "magic b = PERSIST_MAGIC"
      using b s by (simp_all add: aes_record_def holds_record_def app_crypto_decrypt_buffer_def sealed_storage_def)
    then show ?thesis
      using init_loads [OF z'(3,1) s(1)] by blast
  qed
  then show "synced z cfg view (snd (init_fs_if_needed z cfg s))" "g_blob (snd (init_fs_if_needed z cfg s)) = b"
    by simp_all
qed

text \<open>Bringing up the file system does not touch the key.\<close>

lemma adopt_blob_crypto:
  "aes_ctx (adopt_blob z cfg s) = aes_ctx s" "app_crypto_is_enabled (adopt_blob z cfg s) \<longleftrightarrow> app_crypto_is_enabled s"
  by (auto simp: adopt_blob_def case_prod_beta Let_def commit_same app_crypto_is_enabled_def split: option.splits)

lemma init_crypto:
  fixes s :: "('h, 'z) persist_scheme"
  assumes "good_flash z view" "\<not> g_loaded s"
  shows "aes_ctx (snd (init_fs_if_needed z cfg s)) = aes_ctx s"
    "app_crypto_is_enabled (snd (init_fs_if_needed z cfg s)) \<longleftrightarrow> app_crypto_is_enabled s"
proof -
  obtain h fs where "init_fs_if_needed z cfg s = (0, adopt_blob z cfg (s\<lparr>g_fs := fs, hw := h\<rparr>))"
    by (rule init_healthy [of z view s cfg]) (use assms in \<open>simp_all add: good_flash_def\<close>)
  then show "aes_ctx (snd (init_fs_if_needed z cfg s)) = aes_ctx s"
    "app_crypto_is_enabled (snd (init_fs_if_needed z cfg s)) \<longleftrightarrow> app_crypto_is_enabled s"
    by (simp_all add: adopt_blob_crypto) (simp_all add: app_crypto_is_enabled_def)
qed

lemma aes_main_init:
  fixes s :: "('h, 'z) sensor_scheme"
  assumes z: "good_flash z view" and cfg: "aes_config cfg key seed" "\<not> APP_PROVISION_AUTO_PERSIST cfg"
    and b: "aes_record key view (hw s) b" and t: "t = main_init z cfg (persist_power_on s)"
  shows "synced z cfg view t" "g_blob t = b" "aes_ctx t = aes_boot_ctx key" "sealed_storage cfg t"
proof -
  define p where "p = (persist_power_on s)\<lparr>trace := [LOG_EVT_SIMPLE L_INF ''APP'' ''START'']\<rparr>"
  have start: "emit (LOG_EVT_SIMPLE L_INF ''APP'' ''START'') (persist_power_on s) = p"
    by (simp add: p_def emit_def persist_power_on_def)
  define u where "u = snd (app_crypto_init z cfg p)"
  have u: "aes_ctx u = aes_boot_ctx key" "app_crypto_is_enabled u" "hw u = hw s" "\<not> g_loaded u"
    unfolding u_def p_def init_aes_state [OF cfg(1)]
    by (simp_all add: aes_boot_ctx_def app_crypto_is_enabled_def persist_power_on_def)
  have sealed: "sealed_storage cfg u"
    using cfg(1) u(2) by (simp add: sealed_storage_def aes_config_def)
  have t': "t = snd (init_fs_if_needed z cfg u)"
    using cfg(2) by (simp add: t main_init_def start u_def persist_state_init_def case_prod_beta Let_def)
  show "synced z cfg view t" "g_blob t = b"
    unfolding t' using aes_record_loads [OF z u(4) sealed u(1)] b u(3) by simp_all
  show "aes_ctx t = aes_boot_ctx key" "sealed_storage cfg t"
    unfolding t' using init_crypto [OF z u(4)] u(1) sealed by (simp_all add: sealed_storage_def)
qed

text \<open>One life in the AES build.\<close>

lemma aes_boot:
  fixes s :: "('h, 'z) sensor_scheme"
  assumes z: "good_flash z view" and cfg: "aes_config cfg key seed" "\<not> APP_PROVISION_AUTO_PERSIST cfg"
    and b: "aes_record key view (hw s) b" and t: "boot z cfg c s = (safe, t)"
  shows "(safe, g_blob t) = spec_boot (APP_RESET_WATCHDOG_THRESHOLD cfg) c b"
    "synced z cfg view t" "aes_ctx t = aes_boot_ctx key" "sealed_storage cfg t"
proof -
  let ?z = "with_cause z c"
  define u where "u = main_init ?z cfg (persist_power_on s)"
  have z': "good_flash ?z view" and cause: "hwinfo_get_reset_cause ?z h = (0, c)" for h
    using z by (simp_all) (simp add: with_cause_def)
  note u = aes_main_init [OF z' cfg b u_def]
  have h: "main_history ?z cfg u = (safe, t)"
    using t by (simp add: boot_def u_def Let_def)
  have l: "g_loaded u" "magic (g_blob u) = PERSIST_MAGIC"
    using u(1) by (simp_all add: synced_def)
  note r = history_refines [OF z' l cause, where cfg = cfg, unfolded h fst_conv snd_conv]
  show "(safe, g_blob t) = spec_boot (APP_RESET_WATCHDOG_THRESHOLD cfg) c b"
    using r(2) u(2) by simp
  show "aes_ctx t = aes_boot_ctx key" "sealed_storage cfg t"
    using r(3,4) u(3,4) by (simp_all add: sealed_storage_def)
  show "synced z cfg view t"
    using r(1) by (simp add: synced_def holds_record_def)
qed

lemma aes_life:
  fixes s :: "('h, 'z) sensor_scheme"
  assumes z: "good_flash z view" and cfg: "aes_config cfg key seed" "\<not> APP_PROVISION_AUTO_PERSIST cfg"
    and b: "aes_record key view (hw s) b" and ops: "Reload \<notin> set ops" and t: "boot z cfg c s = (safe, t)"
  shows "aes_record key view (hw (fold (persist_step z cfg) ops t))
      (fold spec_step ops (snd (spec_boot (APP_RESET_WATCHDOG_THRESHOLD cfg) c b)))"
proof -
  let ?u = "fold (persist_step z cfg) ops t"
  note t' = aes_boot [OF z cfg b t]
  have "g_loaded t"
    using t'(2) by (simp add: synced_def)
  from persist_steps_keep [OF this ops, of z cfg]
  have "sealed_storage cfg ?u" "aes_ctx ?u = aes_boot_ctx key"
    using t'(3,4) by (simp_all add: sealed_storage_def)
  moreover have "synced z cfg view ?u \<and> g_blob ?u = fold spec_step ops (g_blob t)"
    using persist_steps_refine [OF z t'(2)] .
  moreover have "g_blob t = snd (spec_boot (APP_RESET_WATCHDOG_THRESHOLD cfg) c b)"
    using t'(1) by (metis snd_conv)
  ultimately show ?thesis
    using synced_aes_record [of z cfg view ?u key] by simp
qed

text \<open>
  One life in the Curve25519 build. Persistence comes up before the crypto component is ready, so the
  encrypted record of the last life is not read, and the boot starts from fresh counters.
\<close>

lemma curve_boot_safe:
  fixes s :: "('h, 'z) sensor_scheme"
  assumes z: "good_flash z view" and cfg: "curve_config cfg seed static" "APP_USE_AES_ENCRYPTION cfg"
      "\<not> APP_PROVISION_AUTO_PERSIST cfg"
    and threshold: "2 \<le> APP_RESET_WATCHDOG_THRESHOLD cfg"
    and s: "unreadable_record view (hw s)" and t: "boot z cfg c s = (safe, t)"
  shows "\<not> safe" "consecutive_watchdog (g_blob t) \<le> 1" "synced z cfg view t" "sealed_storage cfg t"
proof -
  let ?z = "with_cause z c"
  have z': "good_flash ?z view" and cause: "hwinfo_get_reset_cause ?z h = (0, c)" for h
    using z by (simp_all) (simp add: with_cause_def)
  obtain u where init: "app_crypto_init ?z cfg ((persist_power_on s)\<lparr>trace := [LOG_EVT_SIMPLE L_INF ''APP'' ''START'']\<rparr>) = (0, u)"
    and u: "\<exists>shared. boot_session shared u" "g_loaded u" "g_blob u = fresh_blob\<lparr>blob_session_counter := 1\<rparr>"
    by (rule curve_boot [OF z' cfg(1) s]) blast
  have start: "emit (LOG_EVT_SIMPLE L_INF ''APP'' ''START'') (persist_power_on s) =
      (persist_power_on s)\<lparr>trace := [LOG_EVT_SIMPLE L_INF ''APP'' ''START'']\<rparr>"
    by (simp add: emit_def persist_power_on_def)
  have "main_init ?z cfg (persist_power_on s) = u"
    using cfg(3) u(2) by (simp add: main_init_def start init persist_state_init_def)
  then have h: "main_history ?z cfg u = (safe, t)"
    using t by (simp add: boot_def Let_def)
  have magic: "magic (g_blob u) = PERSIST_MAGIC"
    by (simp add: u(3) fresh_blob_def)
  note r = history_refines [OF z' u(2) magic cause, where cfg = cfg, unfolded h fst_conv snd_conv]
  have "(safe, g_blob t) = spec_boot (APP_RESET_WATCHDOG_THRESHOLD cfg) c (fresh_blob\<lparr>blob_session_counter := 1\<rparr>)"
    using r(2) u(3) by simp
  moreover have "\<not> APP_RESET_WATCHDOG_THRESHOLD cfg \<le> 1" "\<not> APP_RESET_WATCHDOG_THRESHOLD cfg \<le> 0"
    using threshold by (auto simp: word_le_nat_alt)
  ultimately show "\<not> safe" "consecutive_watchdog (g_blob t) \<le> 1"
    by (simp_all add: spec_boot_def fresh_blob_def zero_blob_def Let_def split: if_splits)
  show "synced z cfg view t"
    using r(1) by (simp add: synced_def holds_record_def)
  show "sealed_storage cfg t"
    using r(4) u(1) cfg(2) by (auto simp: sealed_storage_def boot_session_def app_crypto_is_enabled_def)
qed

lemma curve_life:
  fixes s :: "('h, 'z) sensor_scheme"
  assumes z: "good_flash z view" and cfg: "curve_config cfg seed static" "APP_USE_AES_ENCRYPTION cfg"
      "\<not> APP_PROVISION_AUTO_PERSIST cfg"
    and threshold: "2 \<le> APP_RESET_WATCHDOG_THRESHOLD cfg"
    and s: "unreadable_record view (hw s)" and ops: "Reload \<notin> set ops" and t: "boot z cfg c s = (safe, t)"
  shows "unreadable_record view (hw (fold (persist_step z cfg) ops t))"
proof -
  let ?u = "fold (persist_step z cfg) ops t"
  note t' = curve_boot_safe [OF z cfg threshold s t]
  have "g_loaded t"
    using t'(3) by (simp add: synced_def)
  from persist_steps_keep [OF this ops, of z cfg] have "sealed_storage cfg ?u"
    using t'(4) by (simp add: sealed_storage_def)
  moreover have "synced z cfg view ?u"
    using persist_steps_refine [OF z t'(3)] by simp
  ultimately show ?thesis
    by (auto simp: synced_def holds_record_def unreadable_record_def)
qed

text \<open>Starting the watchdog and the supervisor.\<close>

lemma emit_recovery [simp]:
  "safe_mode_deadline (emit e s) = safe_mode_deadline s" "safe_mode_delay_ms (emit e s) = safe_mode_delay_ms s"
  "current_timeout_ms (emit e s) = current_timeout_ms s"
  by (simp_all add: emit_def)

lemma watchdog_init_started:
  assumes "watchdog_ctrl_init z timeout s = (0, t)"
  obtains h ch where "t = s\<lparr>wdt_channel_id := ch, current_timeout_ms := timeout, hw := h\<rparr>"
proof -
  have feed: "\<exists>h. snd (watchdog_ctrl_feed z u) = u\<lparr>hw := h\<rparr>" for u :: "('a, 'b) watchdog_scheme"
    by (auto simp: watchdog_ctrl_feed_def case_prod_beta intro: exI [of _ "hw u"])
  obtain h ch where t: "t = snd (watchdog_ctrl_feed z (s\<lparr>wdt_channel_id := ch, hw := h, current_timeout_ms := timeout\<rparr>))"
  proof (cases "wdt_channel_id s < 0")
    case True
    let ?i = "wdt_install_timeout z timeout (hw s)"
    let ?u = "s\<lparr>wdt_channel_id := fst ?i, hw := snd (wdt_setup z (snd ?i)), current_timeout_ms := timeout\<rparr>"
    have "watchdog_ctrl_feed z ?u = (0, t)"
      using assms True by (simp add: watchdog_ctrl_init_def case_prod_beta Let_def split: if_splits)
    then have "t = snd (watchdog_ctrl_feed z ?u)"
      by simp
    then show ?thesis
      by (rule that)
  next
    case False
    let ?u = "s\<lparr>wdt_channel_id := wdt_channel_id s, hw := snd (wdt_setup z (hw s)), current_timeout_ms := timeout\<rparr>"
    have "watchdog_ctrl_feed z ?u = (0, t)"
      using assms False by (simp add: watchdog_ctrl_init_def case_prod_beta Let_def split: if_splits)
    then have "t = snd (watchdog_ctrl_feed z ?u)"
      by simp
    then show ?thesis
      by (rule that)
  qed
  obtain h' where "t = s\<lparr>wdt_channel_id := ch, current_timeout_ms := timeout, hw := h'\<rparr>"
    using feed [of "s\<lparr>wdt_channel_id := ch, hw := h, current_timeout_ms := timeout\<rparr>"] t by auto
  then show ?thesis
    by (rule that)
qed

lemma supervisor_started:
  assumes "t = supervisor_start z cfg target delay True s"
  shows "desired_timeout_ms (wd_cfg t) = target" "retune_delay_ms (wd_cfg t) = delay"
    "retune_pending (wd_cfg t) \<longleftrightarrow> target \<noteq> current_timeout_ms s" "safe_mode_deadline t = safe_mode_deadline s"
    "\<exists>h. retune_ready_ts (wd_cfg t) = fst (k_uptime_get z h) + uint delay \<and> hw t = snd (k_uptime_get z h)"
  unfolding assms
  by (auto simp: supervisor_start_def update_retune_schedule_locked_def watchdog_ctrl_get_timeout_def case_prod_beta Let_def)

lemma main_supervision_started:
  fixes s :: "('h, 'z) sensor_scheme"
  assumes m: "main_supervision z cfg safe s = (True, t)"
    and steady: "steady = (if persist_state_get_watchdog_override s = 0 then APP_WATCHDOG_STEADY_TIMEOUT_MS cfg
                           else persist_state_get_watchdog_override s)"
    and s: "safe_mode_deadline s = SAFE_MODE_DEADLINE_INACTIVE"
    and target: "target = (if safe then max steady (APP_WATCHDOG_BOOT_TIMEOUT_MS cfg) else steady)"
    and delay: "delay = (if safe then 0 else APP_WATCHDOG_RETUNE_DELAY_MS cfg)"
  shows "\<exists>u. current_timeout_ms u = APP_WATCHDOG_BOOT_TIMEOUT_MS cfg \<and>
     safe_mode_deadline u = (if safe \<and> APP_SAFE_MODE_REBOOT_DELAY_MS cfg \<noteq> 0
       then fst (k_uptime_get z (k_event_init z (hw s))) + uint (APP_SAFE_MODE_REBOOT_DELAY_MS cfg)
       else SAFE_MODE_DEADLINE_INACTIVE) \<and>
     t = supervisor_start z cfg target delay True u"
proof -
  define r where "r = recovery_schedule_safe_mode_reboot z
      (if safe then APP_SAFE_MODE_REBOOT_DELAY_MS cfg else 0) (recovery_start z s)"
  have start: "recovery_start z s = emit (Thread_Start ''recovery'') (s\<lparr>hw := k_event_init z (hw s)\<rparr>)"
    by (simp add: recovery_start_def)
  have r: "persist_state_get_watchdog_override r = persist_state_get_watchdog_override s"
    "safe_mode_deadline r = (if safe \<and> APP_SAFE_MODE_REBOOT_DELAY_MS cfg \<noteq> 0
       then fst (k_uptime_get z (k_event_init z (hw s))) + uint (APP_SAFE_MODE_REBOOT_DELAY_MS cfg)
       else SAFE_MODE_DEADLINE_INACTIVE)"
    using s by (simp_all add: r_def start recovery_schedule_safe_mode_reboot_def persist_state_get_watchdog_override_def
        case_prod_beta Let_def)
  obtain rc v where w: "watchdog_ctrl_init z (APP_WATCHDOG_BOOT_TIMEOUT_MS cfg) r = (rc, v)"
    by (metis prod.exhaust)
  have "rc = 0"
    using m by (simp add: main_supervision_def r_def [symmetric] w Let_def case_prod_beta split: if_splits)
  let ?e = "emit (LOG_EVT L_INF ''WATCHDOG'' ''CONFIGURED'' [LU (APP_WATCHDOG_BOOT_TIMEOUT_MS cfg), LU target, LU delay]) v"
  let ?u = "if safe then emit (LOG_EVT_SIMPLE L_WRN ''WATCHDOG'' ''RETUNE_DISABLED_SAFE_MODE'') ?e else ?e"
  have t: "t = supervisor_start z cfg target delay True ?u"
  proof (cases safe)
    case True
    then have "recovery_schedule_safe_mode_reboot z (APP_SAFE_MODE_REBOOT_DELAY_MS cfg) (recovery_start z s) = r"
      by (simp add: r_def)
    then show ?thesis
      using m \<open>rc = 0\<close> r(1) True by (simp add: main_supervision_def w steady target delay Let_def cong: if_cong)
  next
    case False
    then have "recovery_schedule_safe_mode_reboot z 0 (recovery_start z s) = r"
      by (simp add: r_def)
    then show ?thesis
      using m \<open>rc = 0\<close> r(1) False by (simp add: main_supervision_def w steady target delay Let_def cong: if_cong)
  qed
  obtain h ch where "v = r\<lparr>wdt_channel_id := ch, current_timeout_ms := APP_WATCHDOG_BOOT_TIMEOUT_MS cfg, hw := h\<rparr>"
    using w \<open>rc = 0\<close> watchdog_init_started by blast
  then have "current_timeout_ms ?u = APP_WATCHDOG_BOOT_TIMEOUT_MS cfg \<and> safe_mode_deadline ?u = safe_mode_deadline r"
    by simp
  with t r(2) show ?thesis
    by (intro exI [of _ ?u]) (simp only: simp_thms)
qed

section \<open>Properties\<close>

text \<open>
  Claim C1. The AES build counts watchdog resets across power cycles as documented: over any number
  of lives, each a reset with its cause and any operations on the record, safe mode is entered
  exactly in the boots in which the abstract counter, incremented by every watchdog reset, cleared
  by every other one and by safe mode itself, has reached the threshold.
\<close>

theorem aes_lives_refine_spec:
  fixes s :: "('h, 'z) sensor_scheme"
  assumes "good_flash z view" "aes_config cfg key seed" "\<not> APP_PROVISION_AUTO_PERSIST cfg"
    and "aes_record key view (hw s) b" "\<forall>(c, ops) \<in> set ls. Reload \<notin> set ops"
  shows "fst (lives z cfg ls s) = spec_lives (APP_RESET_WATCHDOG_THRESHOLD cfg) ls b"
  using assms(4,5)
proof (induction ls arbitrary: s b)
  case (Cons l ls)
  obtain c ops where l: "l = (c, ops)"
    by (cases l)
  obtain safe t where t: "boot z cfg c s = (safe, t)"
    by (metis prod.exhaust)
  have "Reload \<notin> set ops" "\<forall>(c, ops) \<in> set ls. Reload \<notin> set ops"
    using Cons.prems(2) by (auto simp: l)
  note life = aes_life [OF assms(1-3) Cons.prems(1) this(1) t] and IH = Cons.IH [OF _ this(2)]
  have "safe = fst (spec_boot (APP_RESET_WATCHDOG_THRESHOLD cfg) c b)"
    using aes_boot(1) [OF assms(1-3) Cons.prems(1) t] by (metis fst_conv)
  then show ?case
    using IH [OF life] by (simp add: l t case_prod_beta Let_def)
qed simp

theorem aes_lives_refine_spec_witness:
  "fst (lives sim_board kconfig_defaults [(16, []), (16, [Set_Override 5000]), (16, [])] (sim_sensor\<lparr>hw := sim_boot\<rparr>)) =
     [False, False, True]"
proof -
  have "aes_record key sim_flash (hw (sim_sensor\<lparr>hw := sim_boot\<rparr>)) fresh_blob" for key
    by (simp add: aes_record_def sim_boot_def)
  note spec = aes_lives_refine_spec [OF sim_good_flash kconfig_aes_config _ this, of "[(16, []), (16, [Set_Override 5000]), (16, [])]"]
  show ?thesis
    by (subst spec) (simp_all add: kconfig_defaults_def spec_boot_def fresh_blob_def zero_blob_def word_le_nat_alt Let_def)
qed

text \<open>
  Claim C2. In the Curve25519 build safe mode is out of reach for every threshold above 1: whatever
  the reset causes and the operations in between, over any number of lives no boot enters it, because
  the count of consecutive watchdog resets is lost with each reset.
\<close>

theorem curve_never_enters_safe_mode:
  fixes s :: "('h, 'z) sensor_scheme"
  assumes "good_flash z view" "curve_config cfg seed static" "APP_USE_AES_ENCRYPTION cfg"
    and "\<not> APP_PROVISION_AUTO_PERSIST cfg" "2 \<le> APP_RESET_WATCHDOG_THRESHOLD cfg"
    and "unreadable_record view (hw s)" "\<forall>(c, ops) \<in> set ls. Reload \<notin> set ops"
  shows "fst (lives z cfg ls s) = replicate (length ls) False"
  using assms(6,7)
proof (induction ls arbitrary: s)
  case (Cons l ls)
  obtain c ops where l: "l = (c, ops)"
    by (cases l)
  obtain safe t where t: "boot z cfg c s = (safe, t)"
    by (metis prod.exhaust)
  have "Reload \<notin> set ops" "\<forall>(c, ops) \<in> set ls. Reload \<notin> set ops"
    using Cons.prems(2) by (auto simp: l)
  note life = curve_life [OF assms(1-5) Cons.prems(1) this(1) t] and IH = Cons.IH [OF _ this(2)]
  show ?case
    using curve_boot_safe(1) [OF assms(1-5) Cons.prems(1) t] IH [OF life] by (simp add: l t case_prod_beta Let_def)
qed simp

theorem curve_never_enters_safe_mode_witness:
  "fst (lives sim_board prj_conf [(16, []), (16, [Set_Override 5000]), (16, [])] (sim_sensor\<lparr>hw := sim_boot\<rparr>)) =
     [False, False, False]"
proof -
  have "unreadable_record sim_flash (hw (sim_sensor\<lparr>hw := sim_boot\<rparr>))"
    by (simp add: unreadable_record_def sim_boot_def)
  note never = curve_never_enters_safe_mode [OF sim_good_flash prj_curve_config _ _ _ this,
      of "[(16, []), (16, [Set_Override 5000]), (16, [])]"]
  show ?thesis
    by (subst never) (simp_all add: prj_conf_def kconfig_defaults_def word_le_nat_alt)
qed

text \<open>
  Claim C24. How \<open>main\<close> configures supervision when the watchdog starts. In a normal boot the supervisor
  aims at the stored override, or at the configured timeout when there is none, after the configured
  delay, and no reboot is pending. In safe mode a reboot is due after the configured delay, and the
  target is never shorter than the boot timeout; but the retune that the code announces as disabled
  is due at once whenever that timeout, such as a stored override, is longer than the boot timeout.
\<close>

theorem supervision_follows_mode:
  fixes s :: "('h, 'z) sensor_scheme"
  assumes "main_supervision z cfg safe s = (True, t)"
    and steady: "steady = (if persist_state_get_watchdog_override s = 0 then APP_WATCHDOG_STEADY_TIMEOUT_MS cfg
                           else persist_state_get_watchdog_override s)"
    and clock: "\<And>h. fst (k_uptime_get z h) \<le> fst (k_uptime_get z (snd (k_uptime_get z h)))"
    and "safe_mode_deadline s = SAFE_MODE_DEADLINE_INACTIVE"
  shows "if safe
     then desired_timeout_ms (wd_cfg t) = max steady (APP_WATCHDOG_BOOT_TIMEOUT_MS cfg) \<and>
       (APP_SAFE_MODE_REBOOT_DELAY_MS cfg \<noteq> 0 \<longrightarrow> safe_mode_deadline t =
          fst (k_uptime_get z (k_event_init z (hw s))) + uint (APP_SAFE_MODE_REBOOT_DELAY_MS cfg)) \<and>
       (retune_due z t \<longleftrightarrow> APP_WATCHDOG_BOOT_TIMEOUT_MS cfg < steady)
     else desired_timeout_ms (wd_cfg t) = steady \<and> retune_delay_ms (wd_cfg t) = APP_WATCHDOG_RETUNE_DELAY_MS cfg \<and>
       (retune_pending (wd_cfg t) \<longleftrightarrow> APP_WATCHDOG_BOOT_TIMEOUT_MS cfg \<noteq> steady) \<and>
       safe_mode_deadline t = SAFE_MODE_DEADLINE_INACTIVE"
proof -
  define target where "target = (if safe then max steady (APP_WATCHDOG_BOOT_TIMEOUT_MS cfg) else steady)"
  define delay where "delay = (if safe then 0 else APP_WATCHDOG_RETUNE_DELAY_MS cfg)"
  obtain u where u: "current_timeout_ms u = APP_WATCHDOG_BOOT_TIMEOUT_MS cfg"
      "safe_mode_deadline u = (if safe \<and> APP_SAFE_MODE_REBOOT_DELAY_MS cfg \<noteq> 0
         then fst (k_uptime_get z (k_event_init z (hw s))) + uint (APP_SAFE_MODE_REBOOT_DELAY_MS cfg)
         else SAFE_MODE_DEADLINE_INACTIVE)"
    and t: "t = supervisor_start z cfg target delay True u"
    using main_supervision_started [OF assms(1) steady assms(4) target_def delay_def] by blast
  note t' = supervisor_started [OF t]
  obtain h where ready: "retune_ready_ts (wd_cfg t) = fst (k_uptime_get z h) + uint delay" "hw t = snd (k_uptime_get z h)"
    using t'(5) by blast
  show ?thesis
  proof (cases safe)
    case True
    have "retune_ready_ts (wd_cfg t) \<le> fst (k_uptime_get z (hw t))"
      using ready clock [of h] True by (simp add: delay_def)
    then have "retune_due z t \<longleftrightarrow> APP_WATCHDOG_BOOT_TIMEOUT_MS cfg < steady"
      using t'(3) u(1) True by (auto simp: retune_due_def target_def max_def)
    then show ?thesis
      using t' u True by (simp add: target_def)
  next
    case False
    then show ?thesis
      using t' u by (auto simp: target_def delay_def)
  qed
qed

lemma sim_watchdog_starts: "feed_enabled s \<Longrightarrow> fst (watchdog_ctrl_init sim_board timeout s) = 0"
  by (simp add: watchdog_ctrl_init_def watchdog_ctrl_feed_def sim_board_def Let_def)

lemma supervision_goes_on:
  "feed_enabled s \<Longrightarrow> fst (main_supervision sim_board cfg safe s)"
  by (simp add: main_supervision_def recovery_start_def recovery_schedule_safe_mode_reboot_def sim_watchdog_starts
      emit_def case_prod_beta Let_def)

theorem supervision_follows_mode_witness:
  "case main_supervision sim_board prj_conf True
       (sim_sensor\<lparr>g_blob := fresh_blob\<lparr>watchdog_override_ms := 10000\<rparr>, safe_mode_deadline := SAFE_MODE_DEADLINE_INACTIVE,
          feed_enabled := True\<rparr>) of
     (go_on, t) \<Rightarrow> go_on \<and> retune_due sim_board t \<and> desired_timeout_ms (wd_cfg t) = 10000"
proof -
  let ?s = "sim_sensor\<lparr>g_blob := fresh_blob\<lparr>watchdog_override_ms := 10000\<rparr>,
     safe_mode_deadline := SAFE_MODE_DEADLINE_INACTIVE, feed_enabled := True\<rparr>"
  obtain go_on t where m: "main_supervision sim_board prj_conf True ?s = (go_on, t)"
    by (metis prod.exhaust)
  have go_on: "go_on"
    using supervision_goes_on [of ?s prj_conf True] m by simp
  have "(10000 :: u32) = (if persist_state_get_watchdog_override ?s = 0 then APP_WATCHDOG_STEADY_TIMEOUT_MS prj_conf
      else persist_state_get_watchdog_override ?s)"
    by (simp add: persist_state_get_watchdog_override_def)
  from supervision_follows_mode [OF m [unfolded go_on [THEN eqTrueI]] this]
  have "retune_due sim_board t \<and> desired_timeout_ms (wd_cfg t) = 10000"
    by (simp add: sim_uptime prj_conf_def kconfig_defaults_def word_less_nat_alt max_def word_le_nat_alt)
  then show ?thesis
    using go_on by (simp only: m prod.case simp_thms)
qed

end
