(* ===== verification/Spec2Isabelle.thy ===== *)
theory Spec2Isabelle
  imports Prelude Zephyr App_Config Safe_Memory Hex_Codec Prng Block_Cipher Simple_Aes
    Curve25519_Field Curve25519 App_Crypto Persist_State Crypto_Init
    Watchdog_Ctrl Recovery Supervisor Uart_Commands Sensor_Hts221 App_Main
begin

text \<open>
  Verification of the zephyr-secure-supervisor firmware (\<open>src/\<close> of the repository): a supervised sensor
  node that feeds a hardware watchdog only while its heartbeats are fresh, counts watchdog resets in
  flash, falls back to a safe mode when they come in a row, and encrypts its telemetry and its stored
  record.

  \<^bold>\<open>How the program is modelled.\<close> C integers are words of their width (\<open>u8\<close>, \<open>u32\<close>, \<open>i32\<close>, \<open>i64\<close>), so that
  every wrap-around is one of the code; \<open>int64_t\<close> uptimes are integers. The file-scope variables of the
  components form one record, extended file by file in the order of the imports (\<open>mcu\<close>, \<open>crypto\<close>, \<open>persist\<close>,
  \<open>watchdog\<close>, \<open>recovery\<close>, \<open>supervisor\<close>, \<open>uart\<close>, \<open>sensor\<close>), so that a function can be run in the state of
  any later component. A function of the code takes the state and returns it updated; an error code is
  an integer, an output buffer is \<open>None\<close> where the code returns without having written it. The calls to
  Zephyr, its drivers and the vendor library are the fields of the record \<open>'h zephyr\<close> (theory \<open>Zephyr\<close>),
  an argument \<open>z\<close> of the definitions over an unknown hardware state \<open>'h\<close>; what a property needs of them
  is a named hypothesis (\<open>nvs_contract\<close>, \<open>nvs_writable\<close>, \<open>flash_healthy\<close>, \<open>k_event_reset_ok\<close>, \<open>clock_runs\<close>),
  which the simulated board \<open>sim_board\<close> satisfies in the witnesses. The Kconfig values are the record
  \<open>app_config\<close>. The log events, sleeps, thread starts, wake-ups and reboots are the trace.

  \<^bold>\<open>Theories and files.\<close>
  \<^item> \<open>Prelude\<close>: word types, events (\<open>log_utils.h\<close>), byte vectors. \<open>Safe_Memory\<close>: \<open>safe_memory.h\<close>.
    \<open>Hex_Codec\<close>: the hexadecimal loops that four files share; the locale \<open>hex_digits\<close> states what their
    digit functions promise, and each component interprets it with its own copy.
  \<^item> \<open>Block_Cipher\<close>: counter mode over an abstract block cipher (locale), \<open>Simple_Aes\<close>: \<open>simple_aes.c\<close>, with
    the interpretation. The S-box, the key schedule and the whole cipher are those of the standard, the known answers
    of FIPS-197 evaluate, and the cipher is injective.
  \<^item> \<open>Curve25519_Field\<close>, \<open>Curve25519\<close>: \<open>curve25519_ref10.c\<close>. Multiplication, inversion, addition and clamping
    are right within stated limb bounds; the ladder, \<open>fe_mul121666\<close> and the byte conversions are not
    those of RFC 7748, and the lemmas say exactly how.
  \<^item> \<open>Prng\<close>, \<open>App_Crypto\<close>, \<open>Crypto_Init\<close>: \<open>app_crypto.c\<close>. The generator has full period, so IVs do not repeat
    within a boot; the locale \<open>sealed_box\<close> is what storage and telemetry rely on. Across boots the
    keystream does repeat, in both builds.
  \<^item> \<open>Persist_State\<close>: \<open>persist_state.c\<close>. Within a boot the operations refine an abstract machine of four
    counters (\<open>spec_step\<close>, locale \<open>counter_store\<close>); the bring-up loops are bounded; keys and records are found
    again when the record is read back under the same crypto state.
  \<^item> \<open>Watchdog_Ctrl\<close>: \<open>watchdog_ctrl.c\<close>, with the locale \<open>watchdog_port\<close> for the supervisor. The polling loop
    is a \<open>partial_function (option)\<close>, proved to return while the clock runs; the register values are right
    for tick counts of 32 bits and truncated beyond.
  \<^item> \<open>Recovery\<close>: \<open>recovery.c\<close>; an iteration of the thread continues or reboots, with a deadline or without.
  \<^item> \<open>Supervisor\<close>: \<open>supervisor.c\<close>; besides the operations, the step relation \<open>sup_step\<close> interleaves the thread
    with everything the other threads may do, and \<open>sup_reachable\<close> are the states it reaches. An iteration is
    split at \<open>after_retune\<close>: what degraded iterations do is stated relative to the retune attempt before.
  \<^item> \<open>Uart_Commands\<close>: \<open>uart_commands.c\<close>, from characters to watchdog and provisioning commands.
  \<^item> \<open>Sensor_Hts221\<close>: \<open>sensor_hts221.c\<close>, the work item that samples, reports and gives the heartbeats.
  \<^item> \<open>App_Main\<close>: \<open>main.c\<close>, the boot sequence, and a device over many lives (\<open>lives\<close>), where the components
    meet: in the AES build the lives refine the documented counter (\<open>spec_lives\<close>), in the Curve25519
    build they never reach safe mode.

  \<^bold>\<open>Loops and bounds.\<close> Loops with a bound are structural or have a measure (the retry loops of storage,
  the prescaler search, the IV bytes). The loops of the threads are given by their iteration; results about
  any number of iterations are inductions or run over the step relation. The wait for the watchdog
  peripheral has no bound of its own and is the one partial function. No fuel is used.

  \<^bold>\<open>Not modelled.\<close> Free-text log lines (\<open>LOG_INF\<close> and the like, as opposed to the events); stacks, thread
  priorities and mutexes, except that an operation or an iteration is one atomic step; the two GDB staging
  buffers of the provisioning build, which no code reads; the devicetree and build files; tests and host tools. The Curve25519
  theories do not relate the code to the group of the curve, since the ladder does not compute it.
\<close>

end
